theory Spec2Isabelle
  imports Main
begin

section \<open>Strings of the browser client\<close>

text \<open>
  A JavaScript string is a sequence of 16-bit code units; a code unit is modelled by its
  number. \<open>js\<close> embeds an ASCII literal of the source.
\<close>

type_synonym jschar = nat
type_synonym jsstring = "jschar list"

definition js :: "string \<Rightarrow> jsstring" where
  "js s = map of_char s"

definition nl :: jschar where
  "nl = 10"

text \<open>
  \<^verbatim>\<open>buffer.split('\n\n')\<close>: the pieces between the successive, non-overlapping
  occurrences of the two-newline separator, scanning from the left. The result is never
  empty; its last piece is the text after the last separator.
\<close>

fun cons_head :: "'a \<Rightarrow> 'a list list \<Rightarrow> 'a list list" where
  "cons_head x [] = [[x]]"
| "cons_head x (p # ps) = (x # p) # ps"

fun split_nl2 :: "jsstring \<Rightarrow> jsstring list" where
  "split_nl2 [] = [[]]"
| "split_nl2 [x] = [[x]]"
| "split_nl2 (x # y # xs) =
     (if x = nl \<and> y = nl then [] # split_nl2 xs
      else cons_head x (split_nl2 (y # xs)))"

text \<open>\<^verbatim>\<open>line.startsWith('data: ')\<close> and \<^verbatim>\<open>line.slice(6)\<close>.\<close>

definition startsWith :: "jsstring \<Rightarrow> jsstring \<Rightarrow> bool" where
  "startsWith s p = (take (length p) s = p)"

definition slice_from :: "nat \<Rightarrow> jsstring \<Rightarrow> jsstring" where
  "slice_from n s = drop n s"

section \<open>The read loop of generatePaper\<close>

text \<open>
  \<^verbatim>\<open>decoder.decode(value, { stream: true })\<close> consumes the bytes of a chunk one at a
  time and keeps its state (an unfinished multi-byte sequence, the byte-order-mark flag)
  for the next call. The decoder is the platform's; it is a parameter here: a step
  function from a state and a byte to the next state and the code units emitted.
\<close>

type_synonym byte = nat
type_synonym 'd decoder = "'d \<Rightarrow> byte \<Rightarrow> 'd \<times> jsstring"

fun decode :: "'d decoder \<Rightarrow> 'd \<Rightarrow> byte list \<Rightarrow> 'd \<times> jsstring" where
  "decode step d [] = (d, [])"
| "decode step d (b # bs) =
     (let (d1, out1) = step d b; (d2, out2) = decode step d1 bs in (d2, out1 @ out2))"

text \<open>
  The body of \<^verbatim>\<open>while (true)\<close> (lines 133 to 192): one successful
  \<^verbatim>\<open>reader.read()\<close> appends the decoded chunk to the buffer, splits it, keeps the
  last piece as the new buffer and passes every other piece that starts with
  \<^verbatim>\<open>data: \<close> to the frame handler \<open>h\<close>. The loop ends when the reader reports
  \<^verbatim>\<open>done\<close>, that is when the list of chunks is used up.
\<close>

definition handle_lines :: "(jsstring \<Rightarrow> 'u \<Rightarrow> 'u) \<Rightarrow> jsstring list \<Rightarrow> 'u \<Rightarrow> 'u" where
  "handle_lines h lines u =
     fold (\<lambda>line u. if startsWith line (js ''data: '') then h line u else u) lines u"

fun read_loop ::
  "'d decoder \<Rightarrow> (jsstring \<Rightarrow> 'u \<Rightarrow> 'u) \<Rightarrow> 'd \<times> jsstring \<times> 'u \<Rightarrow> byte list list \<Rightarrow> 'd \<times> jsstring \<times> 'u"
where
  "read_loop step h (d, buffer, u) [] = (d, buffer, u)"
| "read_loop step h (d, buffer, u) (chunk # chunks) =
     (let (d', text) = decode step d chunk;
          lines = split_nl2 (buffer @ text);
          buffer' = last lines;
          u' = handle_lines h (butlast lines) u
      in read_loop step h (d', buffer', u') chunks)"

text \<open>The frames the loop has handled, in order: the handler that records its argument.\<close>

definition handled_frames :: "'d decoder \<Rightarrow> 'd \<Rightarrow> byte list list \<Rightarrow> jsstring list" where
  "handled_frames step d0 chunks =
     snd (snd (read_loop step (\<lambda>line acc. acc @ [line]) (d0, [], []) chunks))"

text \<open>
  The complete frames of a whole text: every piece of the split but the last, which no
  separator terminates.
\<close>

definition complete_frames :: "jsstring \<Rightarrow> jsstring list" where
  "complete_frames text = butlast (split_nl2 text)"

definition data_frames :: "jsstring \<Rightarrow> jsstring list" where
  "data_frames text = filter (\<lambda>line. startsWith line (js ''data: '')) (complete_frames text)"

section \<open>JSON values and their conversions\<close>

text \<open>
  The values \<^verbatim>\<open>JSON.parse\<close> yields, and \<^verbatim>\<open>undefined\<close> for a property that is
  not there. A number is carried by the text its conversion to a string gives, which is
  all the client ever does with one. An object is the list of its own properties.
\<close>

datatype json =
    JUndefined
  | JNull
  | JBool bool
  | JNum jsstring
  | JStr jsstring
  | JArr "json list"
  | JObj "(jsstring \<times> json) list"

datatype exn = TypeError | SyntaxError | Error jsstring

definition nullish :: "json \<Rightarrow> bool" where
  "nullish v = (v = JUndefined \<or> v = JNull)"

text \<open>
  \<^verbatim>\<open>v.name\<close> for the property names the client reads (status, message, count, section,
  paper, title, authors, sections and so on): none of them is defined by a prototype, so
  the read gives the own property of an object and \<^verbatim>\<open>undefined\<close> on every other
  value; on \<^verbatim>\<open>null\<close> and \<^verbatim>\<open>undefined\<close> it throws.
\<close>

definition field :: "json \<Rightarrow> jsstring \<Rightarrow> json" where
  "field v k = (case v of
       JObj kvs \<Rightarrow> (case map_of kvs k of None \<Rightarrow> JUndefined | Some x \<Rightarrow> x)
     | _ \<Rightarrow> JUndefined)"

definition get_field :: "json \<Rightarrow> jsstring \<Rightarrow> exn + json" where
  "get_field v k = (if nullish v then Inl TypeError else Inr (field v k))"

text \<open>Truthiness: what \<^verbatim>\<open>if (v)\<close> tests. The numbers 0 and NaN print as such.\<close>

definition truthy :: "json \<Rightarrow> bool" where
  "truthy v = (case v of
       JUndefined \<Rightarrow> False
     | JNull \<Rightarrow> False
     | JBool b \<Rightarrow> b
     | JNum n \<Rightarrow> n \<noteq> js ''0'' \<and> n \<noteq> js ''NaN''
     | JStr t \<Rightarrow> t \<noteq> []
     | JArr _ \<Rightarrow> True
     | JObj _ \<Rightarrow> True)"

fun join_with :: "jsstring \<Rightarrow> jsstring list \<Rightarrow> jsstring" where
  "join_with sep [] = []"
| "join_with sep [p] = p"
| "join_with sep (p # q # ps) = p @ sep @ join_with sep (q # ps)"

fun sequence_r :: "('e + 'a) list \<Rightarrow> 'e + 'a list" where
  "sequence_r [] = Inr []"
| "sequence_r (r # rs) =
     (case r of Inl e \<Rightarrow> Inl e
      | Inr x \<Rightarrow> (case sequence_r rs of Inl e \<Rightarrow> Inl e | Inr xs \<Rightarrow> Inr (x # xs)))"

text \<open>
  The string a template literal or a property key makes of a value. An array joins its
  elements with commas, \<^verbatim>\<open>null\<close> and \<^verbatim>\<open>undefined\<close> elements giving the empty
  string; a plain object gives \<^verbatim>\<open>[object Object]\<close>, and one that has a property
  \<^verbatim>\<open>toString\<close> of its own (never callable in parsed JSON) cannot be converted.
\<close>

fun to_string :: "json \<Rightarrow> exn + jsstring" where
  "to_string JUndefined = Inr (js ''undefined'')"
| "to_string JNull = Inr (js ''null'')"
| "to_string (JBool b) = Inr (if b then js ''true'' else js ''false'')"
| "to_string (JNum n) = Inr n"
| "to_string (JStr t) = Inr t"
| "to_string (JArr xs) =
     (case sequence_r (map (\<lambda>x. if x = JUndefined \<or> x = JNull then Inr [] else to_string x) xs) of
        Inl e \<Rightarrow> Inl e
      | Inr ps \<Rightarrow> Inr (join_with (js '','') ps))"
| "to_string (JObj kvs) =
     (if js ''toString'' \<in> set (map fst kvs) then Inl TypeError
      else Inr (js ''[object Object]''))"

section \<open>displayGeneratedPaper\<close>

record header =
  h_title :: jsstring
  h_authors :: "(jsstring \<times> jsstring \<times> jsstring) list"
  h_date :: jsstring

record block =
  b_title :: jsstring
  b_body :: jsstring

record page =
  p_header :: header
  p_sections :: "block list"
  p_figures :: jsstring
  p_references :: jsstring

text \<open>\<^verbatim>\<open>s.replace('_', ' ')\<close> replaces the first occurrence only.\<close>

fun replace_first :: "jschar \<Rightarrow> jschar \<Rightarrow> jsstring \<Rightarrow> jsstring" where
  "replace_first a b [] = []"
| "replace_first a b (c # cs) = (if c = a then b # cs else c # replace_first a b cs)"

text \<open>
  \<^verbatim>\<open>s.replace(/\b\w/g, l => l.toUpperCase())\<close>: without the unicode flag \<^verbatim>\<open>\w\<close> is
  \<^verbatim>\<open>[A-Za-z0-9_]\<close>; a word character is at a boundary when the character before it is
  not one (or there is none).
\<close>

definition is_word_js :: "jschar \<Rightarrow> bool" where
  "is_word_js c = ((48 \<le> c \<and> c \<le> 57) \<or> (65 \<le> c \<and> c \<le> 90) \<or> c = 95 \<or> (97 \<le> c \<and> c \<le> 122))"

definition toUpperCase_word :: "jschar \<Rightarrow> jschar" where
  "toUpperCase_word c = (if 97 \<le> c \<and> c \<le> 122 then c - 32 else c)"

fun capitalize_words :: "bool \<Rightarrow> jsstring \<Rightarrow> jsstring" where
  "capitalize_words prev_word [] = []"
| "capitalize_words prev_word (c # cs) =
     (if is_word_js c \<and> \<not> prev_word then toUpperCase_word c # capitalize_words True cs
      else c # capitalize_words (is_word_js c) cs)"

definition section_title :: "jsstring \<Rightarrow> jsstring" where
  "section_title section = capitalize_words False (replace_first 95 32 section)"

text \<open>\<^verbatim>\<open>text.replace(/\n/g, '<br>')\<close>.\<close>

definition replace_newlines :: "jsstring \<Rightarrow> jsstring" where
  "replace_newlines t = concat (map (\<lambda>c. if c = nl then js ''<br>'' else [c]) t)"

definition sections :: "jsstring list" where
  "sections = [js ''abstract'', js ''introduction'', js ''literature_review'',
     js ''methodology'', js ''results'', js ''discussion'', js ''conclusion'']"

text \<open>
  The \<^verbatim>\<open>forEach\<close> over the fixed list (lines 234 to 244). A value that passes the
  \<^verbatim>\<open>if\<close> but is no string has no \<^verbatim>\<open>replace\<close> method: the call throws and
  nothing is displayed.
\<close>

fun render_sections :: "json \<Rightarrow> jsstring list \<Rightarrow> exn + block list" where
  "render_sections secs [] = Inr []"
| "render_sections secs (section # rest) =
     (case get_field secs section of
        Inl e \<Rightarrow> Inl e
      | Inr v \<Rightarrow>
          if truthy v then
            (case v of
               JStr t \<Rightarrow>
                 (case render_sections secs rest of
                    Inl e \<Rightarrow> Inl e
                  | Inr bs \<Rightarrow>
                      Inr (\<lparr>b_title = section_title section, b_body = replace_newlines t\<rparr> # bs))
             | _ \<Rightarrow> Inl TypeError)
          else render_sections secs rest)"

definition render_author :: "json \<Rightarrow> exn + (jsstring \<times> jsstring \<times> jsstring)" where
  "render_author a =
     (if nullish a then Inl TypeError
      else case to_string (field a (js ''name'')) of Inl e \<Rightarrow> Inl e | Inr n \<Rightarrow>
           (case to_string (field a (js ''affiliation'')) of Inl e \<Rightarrow> Inl e | Inr f \<Rightarrow>
           (case to_string (field a (js ''email'')) of Inl e \<Rightarrow> Inl e | Inr m \<Rightarrow>
              Inr (n, f, m))))"

text \<open>
  The header template (lines 213 to 227). \<^verbatim>\<open>formatDate\<close> of main.js formats with the
  platform's \<^verbatim>\<open>Date\<close> and locale data and is a parameter.
\<close>

definition render_header :: "(json \<Rightarrow> jsstring) \<Rightarrow> json \<Rightarrow> exn + header" where
  "render_header formatDate data =
     (if nullish data then Inl TypeError
      else case to_string (field data (js ''title'')) of Inl e \<Rightarrow> Inl e | Inr t \<Rightarrow>
           (case field data (js ''authors'') of
              JArr as \<Rightarrow>
                (case sequence_r (map render_author as) of
                   Inl e \<Rightarrow> Inl e
                 | Inr rs \<Rightarrow>
                     Inr \<lparr>h_title = t, h_authors = rs,
                          h_date = formatDate (field data (js ''generated_date''))\<rparr>)
            | _ \<Rightarrow> Inl TypeError))"

text \<open>
  The whole function. The figures and the references (lines 246 to 290) are rendered by
  two parameters, each giving the HTML text it appends or the exception it throws.
  On success the page is assigned to \<^verbatim>\<open>content.innerHTML\<close> and shown.
\<close>

definition displayGeneratedPaper ::
  "(json \<Rightarrow> jsstring) \<Rightarrow> (json \<Rightarrow> exn + jsstring) \<Rightarrow> (json \<Rightarrow> exn + jsstring) \<Rightarrow> json \<Rightarrow> exn + page"
where
  "displayGeneratedPaper formatDate render_figures render_references data =
     (case render_header formatDate data of Inl e \<Rightarrow> Inl e | Inr h \<Rightarrow>
      (case render_sections (field data (js ''sections'')) sections of Inl e \<Rightarrow> Inl e | Inr bs \<Rightarrow>
      (case render_figures data of Inl e \<Rightarrow> Inl e | Inr fs \<Rightarrow>
      (case render_references data of Inl e \<Rightarrow> Inl e | Inr rs \<Rightarrow>
         Inr \<lparr>p_header = h, p_sections = bs, p_figures = fs, p_references = rs\<rparr>))))"

section \<open>The progress events of generatePaper\<close>

text \<open>
  What the client does is recorded as the list of its effects, in order: the writes to
  the page, the notifications (\<^verbatim>\<open>showNotification(message, type)\<close>), the console
  errors and the requests. A width is the percentage assigned to
  \<^verbatim>\<open>progressBar.style.width\<close>.
\<close>

datatype effect =
    Notify jsstring jsstring
  | ShowLoading jsstring
  | HideLoading
  | ShowProgress
  | HideProgress
  | SetWidth nat
  | SetWidthInvalid
  | SetMessage json
  | SetCurrentPaper json
  | ShowPaper page
  | ConsoleError exn
  | Fetch jsstring json

definition sectionMap :: "(jsstring \<times> nat) list" where
  "sectionMap = [(js ''introduction'', 55), (js ''literature_review'', 62),
     (js ''methodology'', 69), (js ''results'', 76), (js ''discussion'', 83),
     (js ''conclusion'', 90)]"

text \<open>
  \<^verbatim>\<open>sectionMap[key]\<close> also finds what an object literal inherits: the properties of
  \<^verbatim>\<open>Object.prototype\<close>, all of them truthy and none a number.
\<close>

definition object_prototype_names :: "jsstring list" where
  "object_prototype_names = [js ''constructor'', js ''hasOwnProperty'', js ''isPrototypeOf'',
     js ''propertyIsEnumerable'', js ''toLocaleString'', js ''toString'', js ''valueOf'',
     js ''__proto__'', js ''__defineGetter__'', js ''__defineSetter__'',
     js ''__lookupGetter__'', js ''__lookupSetter__'']"

text \<open>
  The \<^verbatim>\<open>section_start\<close> branch up to the width (lines 163 to 173): an own entry sets
  its percentage; an inherited one assigns a text that is no length, which the style
  ignores; the conversion of \<^verbatim>\<open>data.section\<close> to a key may throw.
\<close>

definition section_width :: "json \<Rightarrow> exn + effect list" where
  "section_width sec =
     (case to_string sec of
        Inl e \<Rightarrow> Inl e
      | Inr key \<Rightarrow>
          (case map_of sectionMap key of
             Some n \<Rightarrow> Inr [SetWidth n]
           | None \<Rightarrow> if key \<in> set object_prototype_names then Inr [SetWidthInvalid] else Inr []))"

definition success_text :: jsstring where
  "success_text = 9989 # js '' Research paper generated successfully!''"

text \<open>
  The chain of \<^verbatim>\<open>if (data.status === ...)\<close> (lines 147 to 186) on a parsed value:
  the effects it performs and the exception it throws, if any. \<open>display\<close> is
  \<^verbatim>\<open>displayGeneratedPaper\<close>.
\<close>

definition handle_data :: "(json \<Rightarrow> exn + page) \<Rightarrow> json \<Rightarrow> effect list \<times> exn option" where
  "handle_data display data =
     (if nullish data then ([], Some TypeError)
      else let status = field data (js ''status''); message = field data (js ''message'') in
        if status = JStr (js ''start'') then ([SetWidth 10, SetMessage message], None)
        else if status = JStr (js ''title'') then ([SetWidth 20, SetMessage message], None)
        else if status = JStr (js ''rag_start'') then ([SetWidth 30, SetMessage message], None)
        else if status = JStr (js ''rag_complete'') then
          (case to_string (field data (js ''count'')) of
             Inl e \<Rightarrow> ([SetWidth 40], Some e)
           | Inr c \<Rightarrow>
               ([SetWidth 40, SetMessage (JStr (js ''Retrieved '' @ c @ js '' papers''))], None))
        else if status = JStr (js ''abstract'') then ([SetWidth 50, SetMessage message], None)
        else if status = JStr (js ''section_start'') then
          (case section_width (field data (js ''section'')) of
             Inl e \<Rightarrow> ([], Some e)
           | Inr ws \<Rightarrow> (ws @ [SetMessage message], None))
        else if status = JStr (js ''references'') then ([SetWidth 95, SetMessage message], None)
        else if status = JStr (js ''complete'') then
          (let paper = field data (js ''paper'');
               before = [SetWidth 100, SetMessage (JStr (js ''Done!'')), SetCurrentPaper paper]
           in case display paper of
                Inl e \<Rightarrow> (before, Some e)
              | Inr pg \<Rightarrow> (before @ [ShowPaper pg, Notify success_text (js ''success'')], None))
        else if status = JStr (js ''error'') then
          (if message = JUndefined then ([], Some (Error []))
           else case to_string message of
                  Inl e \<Rightarrow> ([], Some e)
                | Inr m \<Rightarrow> ([], Some (Error m)))
        else ([], None))"

text \<open>
  The inner \<^verbatim>\<open>try\<close> and its \<^verbatim>\<open>catch\<close> (lines 143 to 189) on the result of
  \<^verbatim>\<open>JSON.parse\<close>, \<open>None\<close> when the text is no JSON: whatever is thrown inside is
  logged to the console and the loop goes on.
\<close>

definition handle_parsed :: "(json \<Rightarrow> exn + page) \<Rightarrow> json option \<Rightarrow> effect list" where
  "handle_parsed display r =
     (case r of
        None \<Rightarrow> [ConsoleError SyntaxError]
      | Some data \<Rightarrow>
          (case handle_data display data of
             (es, None) \<Rightarrow> es
           | (es, Some e) \<Rightarrow> es @ [ConsoleError e]))"

definition handle_frame ::
  "(jsstring \<Rightarrow> json option) \<Rightarrow> (json \<Rightarrow> exn + page) \<Rightarrow> jsstring \<Rightarrow> effect list \<Rightarrow> effect list"
where
  "handle_frame parse display line es = es @ handle_parsed display (parse (slice_from 6 line))"

text \<open>The events of a stream whose frames have been parsed, handled one after the other.\<close>

definition handle_events :: "(json \<Rightarrow> exn + page) \<Rightarrow> json list \<Rightarrow> effect list" where
  "handle_events display evs = concat (map (\<lambda>ev. handle_parsed display (Some ev)) evs)"

fun widths :: "effect list \<Rightarrow> nat list" where
  "widths [] = []"
| "widths (SetWidth n # es) = n # widths es"
| "widths (_ # es) = widths es"


definition successful_run :: "(jsstring \<times> jsstring option) list" where
  "successful_run = [(js ''start'', None), (js ''title'', None), (js ''rag_start'', None),
     (js ''rag_complete'', None), (js ''abstract'', None),
     (js ''section_start'', Some (js ''introduction'')),
     (js ''section_start'', Some (js ''literature_review'')),
     (js ''section_start'', Some (js ''methodology'')),
     (js ''section_start'', Some (js ''results'')),
     (js ''section_start'', Some (js ''discussion'')),
     (js ''section_start'', Some (js ''conclusion'')),
     (js ''references'', None), (js ''complete'', None)]"

definition is_event :: "json \<Rightarrow> jsstring \<times> jsstring option \<Rightarrow> bool" where
  "is_event ev k =
     (\<not> nullish ev \<and> field ev (js ''status'') = JStr (fst k)
      \<and> (case snd k of None \<Rightarrow> True | Some sec \<Rightarrow> field ev (js ''section'') = JStr sec))"

definition error_event :: "json \<Rightarrow> json" where
  "error_event m = JObj [(js ''status'', JStr (js ''error'')), (js ''message'', m)]"

definition complete_event :: "json \<Rightarrow> json" where
  "complete_event p = JObj [(js ''status'', JStr (js ''complete'')), (js ''paper'', p)]"

section \<open>generatePaper\<close>

text \<open>
  \<^verbatim>\<open>String.prototype.trim\<close> removes the white space and line terminators of
  ECMAScript at both ends.
\<close>

definition is_space_js :: "jschar \<Rightarrow> bool" where
  "is_space_js c = (c \<in> {9, 10, 11, 12, 13, 32, 160, 5760, 8232, 8233, 8239, 8287, 12288, 65279}
     \<or> (8192 \<le> c \<and> c \<le> 8202))"

definition trim :: "jsstring \<Rightarrow> jsstring" where
  "trim s = rev (dropWhile is_space_js (rev (dropWhile is_space_js s)))"

record author_entry =
  a_name :: jsstring
  a_email :: jsstring
  a_affiliation :: jsstring

record paper_form =
  paperTitle :: jsstring
  useRAG :: bool
  hasUserData :: bool
  authorEntries :: "author_entry list"
  methodology :: jsstring
  results :: jsstring

definition collect_authors :: "author_entry list \<Rightarrow> json list" where
  "collect_authors entries =
     concat (map (\<lambda>entry.
       let name = trim (a_name entry); email = trim (a_email entry);
           affiliation = trim (a_affiliation entry)
       in if name \<noteq> [] \<and> email \<noteq> [] \<and> affiliation \<noteq> []
          then [JObj [(js ''name'', JStr name), (js ''email'', JStr email),
                      (js ''affiliation'', JStr affiliation)]]
          else []) entries)"

text \<open>
  Lines 56 to 107: the checks before anything else happens. The result is the
  notification of the check that failed, or the payload of the request.
\<close>

definition generatePaper_payload :: "paper_form \<Rightarrow> (jsstring \<times> jsstring) + json" where
  "generatePaper_payload form =
     (let title = trim (paperTitle form); authors = collect_authors (authorEntries form) in
      if title = [] then Inl (js ''Please enter a paper topic'', js ''error'')
      else if length title < 10 then
        Inl (js ''Topic too short. Minimum 10 characters.'', js ''warning'')
      else if authors = [] then
        Inl (js ''Please add at least one author with complete details'', js ''error'')
      else
        let m = trim (methodology form); r = trim (results form);
            userExperimentalData =
              (if hasUserData form \<and> (m \<noteq> [] \<or> r \<noteq> [])
               then JObj [(js ''methodology'', JStr m), (js ''results'', JStr r)]
               else JNull)
        in Inr (JObj [(js ''topic'', JStr title), (js ''authors'', JArr authors),
                      (js ''use_rag'', JBool (useRAG form)),
                      (js ''user_data'', userExperimentalData)]))"

text \<open>
  What the server does with the request: the fetch is rejected with a message, or it
  gives a body that is read chunk by chunk until it is done or a read is rejected.
\<close>

datatype response = Rejected jsstring | Body "byte list list" "jsstring option"

definition stream_effects ::
  "(jsstring \<Rightarrow> json option) \<Rightarrow> (json \<Rightarrow> exn + page) \<Rightarrow> 'd decoder \<Rightarrow> 'd \<Rightarrow> byte list list \<Rightarrow> effect list"
where
  "stream_effects parse display step d0 chunks =
     snd (snd (read_loop step (handle_frame parse display) (d0, [], []) chunks))"

definition generatePaper ::
  "(jsstring \<Rightarrow> json option) \<Rightarrow> (json \<Rightarrow> exn + page) \<Rightarrow> 'd decoder \<Rightarrow> 'd \<Rightarrow>
   paper_form \<Rightarrow> response \<Rightarrow> effect list"
where
  "generatePaper parse display step d0 form resp =
     (case generatePaper_payload form of
        Inl (message, type) \<Rightarrow> [Notify message type]
      | Inr payload \<Rightarrow>
          [ShowLoading (js ''Generating Research Paper...''), ShowProgress, SetWidth 5,
           SetMessage (JStr (js ''Starting...'')),
           Fetch (js ''/api/generate-paper-stream'') payload]
          @ (case resp of
               Rejected m \<Rightarrow>
                 [Notify (js ''Failed to generate paper: '' @ m) (js ''error''),
                  ConsoleError (Error m)]
             | Body chunks failure \<Rightarrow>
                 stream_effects parse display step d0 chunks
                 @ (case failure of
                      None \<Rightarrow> []
                    | Some m \<Rightarrow>
                        [Notify (js ''Failed to generate paper: '' @ m) (js ''error''),
                         ConsoleError (Error m)]))
          @ [HideLoading, HideProgress])"

section \<open>generateSurvey\<close>

text \<open>
  The effects of literature-survey.js that the paper page does not have: the globals
  it assigns, the console log and the display of the survey.
\<close>

datatype survey_effect =
    Page effect
  | SetSurveyTopic jsstring
  | SetSurveyPapers json
  | SetSurveyContent json
  | ConsoleLog jsstring
  | ShowSurvey json

text \<open>
  The answer to a \<^verbatim>\<open>fetch\<close>: the request fails, or a response arrives with its
  \<^verbatim>\<open>ok\<close> flag, its status (as printed) and the value \<^verbatim>\<open>response.json()\<close> parses
  from its body, \<open>None\<close> when the body is no JSON.
\<close>

datatype http = NetFail jsstring | Resp bool jsstring "json option"

definition or_js :: "json \<Rightarrow> json \<Rightarrow> json" where
  "or_js a b = (if truthy a then a else b)"

function decimal :: "nat \<Rightarrow> jsstring" where
  "decimal n = (if n < 10 then [48 + n] else decimal (n div 10) @ [48 + n mod 10])"
  by pat_completeness auto
termination
  by (relation "measure id") auto

text \<open>\<^verbatim>\<open>v.length\<close> of a value that is neither \<^verbatim>\<open>null\<close> nor \<^verbatim>\<open>undefined\<close>.\<close>

definition length_prop :: "json \<Rightarrow> json" where
  "length_prop v = (case v of
       JArr xs \<Rightarrow> JNum (decimal (length xs))
     | JStr t \<Rightarrow> JNum (decimal (length t))
     | _ \<Rightarrow> field v (js ''length''))"

text \<open>
  The second step (lines 47 to 69), after the papers have been retrieved. \<open>display\<close>
  is \<^verbatim>\<open>displaySurvey\<close>, giving the exception it throws, if any.
\<close>

definition survey_step2 ::
  "(json \<Rightarrow> exn option) \<Rightarrow> jsstring \<Rightarrow> json \<Rightarrow> http \<Rightarrow> survey_effect list \<times> exn option"
where
  "survey_step2 display topic papers r2 =
     (let request = [Page (ShowLoading (js ''Step 2/2: Generating literature survey...'')),
            Page (Fetch (js ''/api/generate-survey'')
              (JObj [(js ''topic'', JStr topic), (js ''papers'', papers)]))]
      in case r2 of
        NetFail m \<Rightarrow> (request, Some (Error m))
      | Resp ok status body \<Rightarrow>
          if \<not> ok then (request, Some (Error (js ''HTTP '' @ status)))
          else (case body of
            None \<Rightarrow> (request, Some SyntaxError)
          | Some surveyData \<Rightarrow>
              if nullish surveyData then (request, Some TypeError)
              else if truthy (field surveyData (js ''success'')) then
                (let content = or_js (field surveyData (js ''survey''))
                                     (field surveyData (js ''content''));
                     es = request @ [SetSurveyContent content]
                 in case display surveyData of
                      Some e \<Rightarrow> (es, Some e)
                    | None \<Rightarrow>
                        (es @ [ShowSurvey surveyData,
                           Page (Notify (9989 # js '' Literature survey generated successfully!'')
                                        (js ''success''))], None))
              else
                (case to_string (or_js (field surveyData (js ''error'')) (JStr (js ''Unknown error''))) of
                   Inl e \<Rightarrow> (request, Some e)
                 | Inr m \<Rightarrow>
                     (request @ [Page (Notify (js ''Error generating survey: '' @ m) (js ''error''))],
                      None))))"

text \<open>
  The \<^verbatim>\<open>try\<close> block (lines 26 to 69): its effects and the exception that leaves
  it, if any. The early \<^verbatim>\<open>return\<close> hides the loading overlay itself.
\<close>

definition survey_try ::
  "(json \<Rightarrow> exn option) \<Rightarrow> jsstring \<Rightarrow> http \<Rightarrow> http \<Rightarrow> survey_effect list \<times> exn option"
where
  "survey_try display topic r1 r2 =
     (let request = [Page (Fetch (js ''/api/retrieve-papers'')
            (JObj [(js ''topic'', JStr topic), (js ''count'', JNum (js ''10''))]))]
      in case r1 of
        NetFail m \<Rightarrow> (request, Some (Error m))
      | Resp ok status body \<Rightarrow>
          if \<not> ok then (request, Some (Error (js ''HTTP '' @ status)))
          else (case body of
            None \<Rightarrow> (request, Some SyntaxError)
          | Some retrieveData \<Rightarrow>
              if nullish retrieveData then (request, Some TypeError)
              else if \<not> truthy (field retrieveData (js ''success'')) then
                (case to_string (or_js (field retrieveData (js ''error'')) (JStr (js ''Unknown error''))) of
                   Inl e \<Rightarrow> (request, Some e)
                 | Inr m \<Rightarrow>
                     (request @ [Page (Notify (js ''Failed to retrieve papers: '' @ m) (js ''error'')),
                        Page HideLoading], None))
              else
                (let papers = or_js (field retrieveData (js ''papers'')) (JArr []);
                     es = request @ [SetSurveyPapers papers]
                 in case to_string (length_prop papers) of
                      Inl e \<Rightarrow> (es, Some e)
                    | Inr n \<Rightarrow>
                        (case survey_step2 display topic papers r2 of
                           (es2, x) \<Rightarrow>
                             (es @ [ConsoleLog (9989 # js '' Retrieved '' @ n @ js '' papers'')] @ es2,
                              x)))))"

definition generateSurvey ::
  "(json \<Rightarrow> exn option) \<Rightarrow> jsstring \<Rightarrow> http \<Rightarrow> http \<Rightarrow> survey_effect list"
where
  "generateSurvey display surveyTopic_value r1 r2 =
     (let topic = trim surveyTopic_value in
      if topic = [] then [Page (Notify (js ''Please enter a research topic'') (js ''error''))]
      else if length topic < 10 then
        [Page (Notify (js ''Topic too short. Please provide at least 10 characters.'')
                      (js ''warning''))]
      else
        [SetSurveyTopic topic,
         Page (ShowLoading (js ''Step 1/2: Retrieving papers from Semantic Scholar...''))]
        @ (case survey_try display topic r1 r2 of
             (es, None) \<Rightarrow> es
           | (es, Some e) \<Rightarrow>
               es @ [Page (ConsoleError e),
                     Page (Notify (js ''Failed to generate survey. Please try again.'') (js ''error''))])
        @ [Page HideLoading])"

text \<open>The requests among the effects: where the pipeline reaches the network.\<close>

fun requests :: "effect list \<Rightarrow> (jsstring \<times> json) list" where
  "requests [] = []"
| "requests (Fetch url body # es) = (url, body) # requests es"
| "requests (_ # es) = requests es"

fun survey_requests :: "survey_effect list \<Rightarrow> (jsstring \<times> json) list" where
  "survey_requests [] = []"
| "survey_requests (Page (Fetch url body) # es) = (url, body) # survey_requests es"
| "survey_requests (_ # es) = survey_requests es"

section \<open>Sample inputs of the client\<close>

text \<open>
  Concrete inputs at which the theorems below are instantiated: two forms, a decoder for
  one-byte characters, and a stream of thirteen frames \<^verbatim>\<open>data: a\<close> to
  \<^verbatim>\<open>data: m\<close>, read in two chunks that cut a frame, with a parser that takes the
  letters for the events of a successful run.
\<close>

definition short_form :: paper_form where
  "short_form = \<lparr>paperTitle = js ''  GANs  '', useRAG = True, hasUserData = False,
     authorEntries = [], methodology = [], results = []\<rparr>"

definition sample_form :: paper_form where
  "sample_form = \<lparr>paperTitle = js '' Federated Learning for Medical Imaging '',
     useRAG = True, hasUserData = False,
     authorEntries = [\<lparr>a_name = js ''Ada'', a_email = js ''ada@mit.edu'', a_affiliation = js ''MIT''\<rparr>],
     methodology = [], results = []\<rparr>"

definition byte_decoder :: "unit decoder" where
  "byte_decoder d b = (d, [b])"

definition sample_events :: "json list" where
  "sample_events =
     map (\<lambda>k. JObj ((js ''status'', JStr (fst k))
                 # (case snd k of None \<Rightarrow> [] | Some sec \<Rightarrow> [(js ''section'', JStr sec)])))
       successful_run"

definition sample_parse :: "jsstring \<Rightarrow> json option" where
  "sample_parse t =
     (case t of
        [c] \<Rightarrow> if 97 \<le> c \<and> c < 110 then Some (sample_events ! (c - 97)) else None
      | _ \<Rightarrow> None)"

definition sample_chunks :: "byte list list" where
  "sample_chunks =
     [js ''data: a\<newline>\<newline>data: b\<newline>\<newline>data: c\<newline>\<newline>data: d\<newline>\<newline>data: e\<newline>\<newline>data: f\<newline>\<newline>da'',
      js ''ta: g\<newline>\<newline>data: h\<newline>\<newline>data: i\<newline>\<newline>data: j\<newline>\<newline>data: k\<newline>\<newline>data: l\<newline>\<newline>data: m\<newline>\<newline>'']"

definition sample_payload :: json where
  "sample_payload = JObj [(js ''topic'', JStr (js ''Federated Learning for Medical Imaging'')),
     (js ''authors'', JArr [JObj [(js ''name'', JStr (js ''Ada'')), (js ''email'', JStr (js ''ada@mit.edu'')),
                                 (js ''affiliation'', JStr (js ''MIT''))]]),
     (js ''use_rag'', JBool True), (js ''user_data'', JNull)]"


text \<open>Whether an object has a property of its own, and the text of a string value.\<close>

definition has_own :: "json \<Rightarrow> jsstring \<Rightarrow> bool" where
  "has_own v k = (case v of JObj kvs \<Rightarrow> k \<in> fst ` set kvs | _ \<Rightarrow> False)"

definition str_of :: "json \<Rightarrow> jsstring" where
  "str_of v = (case v of JStr t \<Rightarrow> t | _ \<Rightarrow> [])"

definition sample_sections :: json where
  "sample_sections = JObj [(js ''conclusion'', JStr (js ''Done.'')), (js ''appendix'', JStr (js ''More.'')),
     (js ''results'', JStr []), (js ''abstract'', JStr (js ''We study.''))]"

section \<open>Text of the Python services\<close>

text \<open>
  A Python string is a sequence of code points. \<^verbatim>\<open>str.strip()\<close> and the class
  \<^verbatim>\<open>\s\<close> of a text pattern share one test for white space, a short list of code
  points. The classes \<^verbatim>\<open>\w\<close> and \<^verbatim>\<open>\d\<close> and \<^verbatim>\<open>str.lower()\<close> follow the
  Unicode character database and are parameters. As in Unicode, no white-space character
  is a word character or a digit, and the characters a pattern names literally are not
  white space.
\<close>

type_synonym pystring = "nat list"

definition py :: "string \<Rightarrow> pystring" where
  "py s = map of_char s"

definition py_isspace :: "nat \<Rightarrow> bool" where
  "py_isspace c = ((9 \<le> c \<and> c \<le> 13) \<or> (28 \<le> c \<and> c \<le> 32) \<or> c = 133 \<or> c = 160
     \<or> c = 5760 \<or> (8192 \<le> c \<and> c \<le> 8202) \<or> c = 8232 \<or> c = 8233 \<or> c = 8239
     \<or> c = 8287 \<or> c = 12288)"

record ucd =
  is_word :: "nat \<Rightarrow> bool"
  is_digit :: "nat \<Rightarrow> bool"
  lower :: "pystring \<Rightarrow> pystring"

text \<open>The classes on ASCII text, where they are the familiar ones.\<close>

definition ascii_ucd :: ucd where
  "ascii_ucd = \<lparr>
     is_word = (\<lambda>c. (48 \<le> c \<and> c \<le> 57) \<or> (65 \<le> c \<and> c \<le> 90) \<or> c = 95 \<or> (97 \<le> c \<and> c \<le> 122)),
     is_digit = (\<lambda>c. 48 \<le> c \<and> c \<le> 57),
     lower = map (\<lambda>c. if 65 \<le> c \<and> c \<le> 90 then c + 32 else c)\<rparr>"

definition strip :: "pystring \<Rightarrow> pystring" where
  "strip s = rev (dropWhile py_isspace (rev (dropWhile py_isspace s)))"





section \<open>Cache key: get-cache-key of the cache manager\<close>

text \<open>\<^verbatim>\<open>re.sub(r'\s+', '_', text)\<close>: every run of white space becomes one underscore.\<close>

fun collapse_spaces :: "bool \<Rightarrow> pystring \<Rightarrow> pystring" where
  "collapse_spaces in_run [] = []"
| "collapse_spaces in_run (c # cs) =
     (if py_isspace c then (if in_run then collapse_spaces True cs else 95 # collapse_spaces True cs)
      else c # collapse_spaces False cs)"

text \<open>The variable \<^verbatim>\<open>clean\<close> after line 465.\<close>

definition cache_slug :: "ucd \<Rightarrow> pystring \<Rightarrow> pystring" where
  "cache_slug U query =
     (let clean = filter (\<lambda>c. is_word U c \<or> py_isspace c \<or> c = 45) (lower U query)
      in take 60 (collapse_spaces False (strip clean)))"

text \<open>
  \<^verbatim>\<open>query.encode()\<close>: UTF-8; a surrogate code point cannot be encoded and raises.
\<close>

datatype pyerror = UnicodeEncodeError

definition utf8_char :: "nat \<Rightarrow> byte list option" where
  "utf8_char c =
     (if c < 128 then Some [c]
      else if c < 2048 then Some [192 + c div 64, 128 + c mod 64]
      else if 55296 \<le> c \<and> c \<le> 57343 then None
      else if c < 65536 then Some [224 + c div 4096, 128 + (c div 64) mod 64, 128 + c mod 64]
      else if c < 1114112 then
        Some [240 + c div 262144, 128 + (c div 4096) mod 64, 128 + (c div 64) mod 64, 128 + c mod 64]
      else None)"

fun encode :: "pystring \<Rightarrow> byte list option" where
  "encode [] = Some []"
| "encode (c # cs) =
     (case utf8_char c of
        None \<Rightarrow> None
      | Some bs \<Rightarrow> (case encode cs of None \<Rightarrow> None | Some rest \<Rightarrow> Some (bs @ rest)))"

text \<open>
  \<open>md5_hexdigest\<close> is \<^verbatim>\<open>hashlib.md5(bytes).hexdigest()\<close>, the library's, a
  parameter.
\<close>

definition get_cache_key :: "ucd \<Rightarrow> (byte list \<Rightarrow> pystring) \<Rightarrow> pystring \<Rightarrow> pyerror + pystring" where
  "get_cache_key U md5_hexdigest query =
     (let clean = cache_slug U query in
      case encode query of
        None \<Rightarrow> Inl UnicodeEncodeError
      | Some bytes \<Rightarrow> Inr (clean @ [95] @ take 8 (md5_hexdigest bytes)))"

text \<open>
  The slug as the specification words it: lowercase, strip the non-word characters,
  collapse the runs of white space to single underscores, truncate.
\<close>

definition slug_spec :: "ucd \<Rightarrow> pystring \<Rightarrow> pystring" where
  "slug_spec U query =
     take 60 (collapse_spaces False (filter (\<lambda>c. is_word U c \<or> py_isspace c) (lower U query)))"

text \<open>
  The white-space separated tokens of a text (\<^verbatim>\<open>text.split()\<close>): the second
  argument is the token being read.
\<close>

fun tokens :: "pystring \<Rightarrow> pystring \<Rightarrow> pystring list" where
  "tokens cur [] = (if cur = [] then [] else [cur])"
| "tokens cur (c # cs) =
     (if py_isspace c then (if cur = [] then tokens [] cs else cur # tokens [] cs)
      else tokens (cur @ [c]) cs)"

text \<open>
  A query for the theorems below, and a digest function that gives the MD5 digest of
  that query.
\<close>

definition sample_query :: pystring where
  "sample_query = py ''  Deep-Learning  for   X-ray!! ''"

definition sample_md5 :: "byte list \<Rightarrow> pystring" where
  "sample_md5 bytes = py ''443fd2d0f75c1f0c0dfa3f948f98b122''"

definition rstrip :: "pystring \<Rightarrow> pystring" where
  "rstrip s = rev (dropWhile py_isspace (rev s))"

section \<open>Multi-strategy search: search-papers of the RAG service\<close>

text \<open>
  Modelled from the spec: \<^verbatim>\<open>deduplicate\<close>, which the documentation calls and does not
  show. It keeps the first paper of every identifier; the identifier of a paper (the
  external ID if present, else the normalized title) is the parameter \<open>ident\<close>.
\<close>

fun dedup_seen :: "('p \<Rightarrow> 'k) \<Rightarrow> 'k list \<Rightarrow> 'p list \<Rightarrow> 'p list" where
  "dedup_seen ident seen [] = []"
| "dedup_seen ident seen (p # ps) =
     (if ident p \<in> set seen then dedup_seen ident seen ps
      else p # dedup_seen ident (ident p # seen) ps)"

definition deduplicate :: "('p \<Rightarrow> 'k) \<Rightarrow> 'p list \<Rightarrow> 'p list" where
  "deduplicate ident papers = dedup_seen ident [] papers"

text \<open>\<^verbatim>\<open>papers[:limit]\<close>: a negative limit counts from the end.\<close>

definition slice_to :: "int \<Rightarrow> 'a list \<Rightarrow> 'a list" where
  "slice_to limit xs =
     (if 0 \<le> limit then take (nat limit) xs else take (length xs - nat (- limit)) xs)"

text \<open>
  The query helpers \<^verbatim>\<open>remove_stopwords\<close>, \<^verbatim>\<open>first_n_keywords\<close> and
  \<^verbatim>\<open>last_n_words\<close> and the provider call \<^verbatim>\<open>search_api\<close> are parameters. The
  state of a run is the accumulator \<^verbatim>\<open>papers\<close> and the log of the queries sent to the
  provider.
\<close>

record 'p ladder =
  search_api :: "pystring \<Rightarrow> 'p list"
  remove_stopwords :: "pystring \<Rightarrow> pystring"
  first_n_keywords :: "pystring \<Rightarrow> nat \<Rightarrow> pystring"
  last_n_words :: "pystring \<Rightarrow> nat \<Rightarrow> pystring"

definition ladder_step ::
  "'p ladder \<Rightarrow> int \<Rightarrow> pystring \<Rightarrow> 'p list \<times> pystring list \<Rightarrow> 'p list \<times> pystring list"
where
  "ladder_step L limit q st =
     (case st of (papers, sent) \<Rightarrow>
        if int (length papers) < limit then (papers @ search_api L q, sent @ [q]) else st)"

text \<open>Lines 646 to 664: the accumulator and the log after the four strategies.\<close>

definition search_ladder :: "'p ladder \<Rightarrow> pystring \<Rightarrow> int \<Rightarrow> 'p list \<times> pystring list" where
  "search_ladder L query limit =
     (let s1 = (search_api L query, [query]);
          s2 = ladder_step L limit (remove_stopwords L query) s1;
          s3 = ladder_step L limit (first_n_keywords L query 3) s2;
          s4 = ladder_step L limit (last_n_words L query 2) s3
      in s4)"

definition search_papers :: "'p ladder \<Rightarrow> ('p \<Rightarrow> 'k) \<Rightarrow> pystring \<Rightarrow> int \<Rightarrow> 'p list" where
  "search_papers L ident query limit =
     slice_to limit (deduplicate ident (fst (search_ladder L query limit)))"

definition queries_sent :: "'p ladder \<Rightarrow> pystring \<Rightarrow> int \<Rightarrow> pystring list" where
  "queries_sent L query limit = snd (search_ladder L query limit)"

text \<open>
  The ladder as the specification words it: the accumulator is deduplicated after every
  step, before the next step looks at its size.
\<close>

definition ladder_step_spec ::
  "'p ladder \<Rightarrow> ('p \<Rightarrow> 'k) \<Rightarrow> int \<Rightarrow> pystring \<Rightarrow> 'p list \<times> pystring list \<Rightarrow> 'p list \<times> pystring list"
where
  "ladder_step_spec L ident limit q st =
     (case st of (papers, sent) \<Rightarrow>
        if int (length papers) < limit
        then (deduplicate ident (papers @ search_api L q), sent @ [q]) else st)"

definition search_ladder_spec ::
  "'p ladder \<Rightarrow> ('p \<Rightarrow> 'k) \<Rightarrow> pystring \<Rightarrow> int \<Rightarrow> 'p list \<times> pystring list"
where
  "search_ladder_spec L ident query limit =
     (let s1 = (deduplicate ident (search_api L query), [query]);
          s2 = ladder_step_spec L ident limit (remove_stopwords L query) s1;
          s3 = ladder_step_spec L ident limit (first_n_keywords L query 3) s2;
          s4 = ladder_step_spec L ident limit (last_n_words L query 2) s3
      in s4)"

definition search_papers_spec :: "'p ladder \<Rightarrow> ('p \<Rightarrow> 'k) \<Rightarrow> pystring \<Rightarrow> int \<Rightarrow> 'p list" where
  "search_papers_spec L ident query limit =
     slice_to limit (fst (search_ladder_spec L ident query limit))"

text \<open>The four queries of the ladder, from the most precise to the broadest.\<close>

definition ladder_queries :: "'p ladder \<Rightarrow> pystring \<Rightarrow> pystring list" where
  "ladder_queries L query =
     [query, remove_stopwords L query, first_n_keywords L query 3, last_n_words L query 2]"

text \<open>
  A provider for one topic: the exact query finds paper 1, the simplified one papers 1 and
  2, the minimal one paper 3 and the broad one paper 4. A paper is its own identifier.
\<close>

definition sample_topic :: pystring where
  "sample_topic = py ''federated learning for medical imaging''"

definition sample_ladder :: "nat ladder" where
  "sample_ladder = \<lparr>
     search_api = (\<lambda>q. if q = sample_topic then [1]
                        else if q = py ''federated learning medical imaging'' then [1, 2]
                        else if q = py ''federated learning medical'' then [3]
                        else if q = py ''medical imaging'' then [4]
                        else []),
     remove_stopwords = (\<lambda>q. py ''federated learning medical imaging''),
     first_n_keywords = (\<lambda>q n. py ''federated learning medical''),
     last_n_words = (\<lambda>q n. py ''medical imaging'')\<rparr>"

section \<open>Content formatting: format-structured-content of the generation engine\<close>













section \<open>Splitting does not depend on the chunks\<close>

lemma split_nl2_nonempty: "split_nl2 xs \<noteq> []"
  by (induction xs rule: split_nl2.induct) (auto simp: neq_Nil_conv)

lemma split_nl2_single: "split_nl2 xs = [p] \<Longrightarrow> p = xs"
proof (induction xs arbitrary: p rule: split_nl2.induct)
  case (3 x y xs)
  then show ?case
    by (cases "split_nl2 (y # xs)") (auto split: if_splits simp: split_nl2_nonempty neq_Nil_conv)
qed auto

text \<open>
  Splitting a text whose beginning has been split already: the pieces found in the
  beginning stay, and the scan goes on in its last piece.
\<close>

lemma split_nl2_append:
  "split_nl2 (a @ b) = butlast (split_nl2 a) @ split_nl2 (last (split_nl2 a) @ b)"
proof (induction a rule: split_nl2.induct)
  case 1
  then show ?case by simp
next
  case (2 x)
  then show ?case by simp
next
  case (3 x y xs)
  show ?case
  proof (cases "x = nl \<and> y = nl")
    case True
    then have "split_nl2 (xs @ b) = butlast (split_nl2 xs) @ split_nl2 (last (split_nl2 xs) @ b)"
      using 3(1) by simp
    with True show ?thesis by (simp add: split_nl2_nonempty)
  next
    case False
    then have st: "\<And>zs. split_nl2 (x # y # zs) = cons_head x (split_nl2 (y # zs))"
      by auto
    obtain p ps where ps: "split_nl2 (y # xs) = p # ps"
      using split_nl2_nonempty [of "y # xs"] by (cases "split_nl2 (y # xs)") auto
    have ih: "split_nl2 (y # xs @ b) = butlast (p # ps) @ split_nl2 (last (p # ps) @ b)"
      using 3(2) False ps by simp
    show ?thesis
    proof (cases ps)
      case Nil
      then have "p = y # xs" using ps split_nl2_single by blast
      then show ?thesis using ps Nil by (simp add: st del: split_nl2.simps)
    next
      case (Cons q qs)
      then show ?thesis using ps ih by (simp add: st del: split_nl2.simps)
    qed
  qed
qed

lemma decode_append:
  "decode step d (a @ b) =
     (let (d1, o1) = decode step d a; (d2, o2) = decode step d1 b in (d2, o1 @ o2))"
  by (induction a arbitrary: d) (auto split: prod.splits)

lemma handle_lines_append:
  "handle_lines h (xs @ ys) u = handle_lines h ys (handle_lines h xs u)"
  by (simp add: handle_lines_def)

lemma handle_lines_filter:
  "handle_lines h lines u = fold h (filter (\<lambda>line. startsWith line (js ''data: '')) lines) u"
  unfolding handle_lines_def by (induction lines arbitrary: u) auto

text \<open>
  The invariant of the loop: the buffer is the last piece of the text decoded so far and
  the handler has seen its other pieces.
\<close>

lemma read_loop_inv:
  "read_loop step h (d, last (split_nl2 t), handle_lines h (butlast (split_nl2 t)) u0) chunks =
     (let (d', text) = decode step d (concat chunks) in
       (d', last (split_nl2 (t @ text)), handle_lines h (butlast (split_nl2 (t @ text))) u0))"
proof (induction chunks arbitrary: d t)
  case Nil
  then show ?case by simp
next
  case (Cons c cs)
  obtain d1 t1 where c: "decode step d c = (d1, t1)" by (cases "decode step d c")
  obtain d2 t2 where cs: "decode step d1 (concat cs) = (d2, t2)" by (cases "decode step d1 (concat cs)")
  have sp: "split_nl2 (t @ t1) = butlast (split_nl2 t) @ split_nl2 (last (split_nl2 t) @ t1)"
    by (rule split_nl2_append)
  have l: "last (split_nl2 (last (split_nl2 t) @ t1)) = last (split_nl2 (t @ t1))"
    by (simp add: sp split_nl2_nonempty)
  have b: "handle_lines h (butlast (split_nl2 (last (split_nl2 t) @ t1))) (handle_lines h (butlast (split_nl2 t)) u0)
       = handle_lines h (butlast (split_nl2 (t @ t1))) u0"
    by (simp add: sp split_nl2_nonempty butlast_append handle_lines_append)
  show ?case
    using Cons.IH [of d1 "t @ t1"] by (simp add: c cs l b decode_append)
qed

lemma read_loop_whole:
  "read_loop step h (d0, [], u0) chunks =
     (fst (decode step d0 (concat chunks)),
      last (split_nl2 (snd (decode step d0 (concat chunks)))),
      fold h (data_frames (snd (decode step d0 (concat chunks)))) u0)"
  using read_loop_inv [of step h d0 "[]" u0 chunks]
  by (simp add: handle_lines_filter data_frames_def complete_frames_def handle_lines_def split: prod.splits)

lemma fold_snoc_list: "fold (\<lambda>x acc. acc @ [x]) xs ys = ys @ xs"
  by (induction xs arbitrary: ys) auto

lemma fold_append_effects: "fold (\<lambda>x acc. acc @ f x) xs ys = ys @ concat (map f xs)"
  by (induction xs arbitrary: ys) auto

lemma join_with_Cons: "ps \<noteq> [] \<Longrightarrow> join_with sep (p # ps) = p @ sep @ join_with sep ps"
  by (cases ps) auto

lemma join_cons_head: "ps \<noteq> [] \<Longrightarrow> join_with sep (cons_head x ps) = x # join_with sep ps"
proof -
  assume "ps \<noteq> []"
  then obtain p qs where ps: "ps = p # qs" by (cases ps) auto
  show ?thesis unfolding ps by (cases qs) auto
qed

lemma split_nl2_join: "join_with [nl, nl] (split_nl2 xs) = xs"
proof (induction xs rule: split_nl2.induct)
  case (3 x y xs)
  show ?case
  proof (cases "x = nl \<and> y = nl")
    case True
    then show ?thesis using 3(1) split_nl2_nonempty [of xs] by (simp add: join_with_Cons)
  next
    case False
    then have "split_nl2 (x # y # xs) = cons_head x (split_nl2 (y # xs))" by auto
    then show ?thesis
      using 3(2) False split_nl2_nonempty [of "y # xs"]
      by (simp add: join_cons_head del: split_nl2.simps)
  qed
qed simp_all

lemma frames_and_buffer:
  "join_with [nl, nl] (complete_frames text @ [last (split_nl2 text)]) = text"
  using split_nl2_join [of "text"] split_nl2_nonempty [of "text"]
  by (simp add: complete_frames_def)

text \<open>
  C10. Whatever the partition of the response into chunks, the read loop handles exactly
  the complete frames of the decoded stream that start with \<^verbatim>\<open>data: \<close>, each once and
  in order; the piece after the last separator stays in the buffer, unhandled. The complete
  frames and the buffer, joined by the separator, are the decoded stream. All of it is a
  function of the concatenation of the chunks alone.
\<close>

theorem read_loop_chunk_independent:
  "handled_frames step d0 chunks = data_frames (snd (decode step d0 (concat chunks)))
   \<and> fst (snd (read_loop step h (d0, [], u0) chunks))
       = last (split_nl2 (snd (decode step d0 (concat chunks))))
   \<and> snd (snd (read_loop step h (d0, [], u0) chunks))
       = fold h (data_frames (snd (decode step d0 (concat chunks)))) u0
   \<and> join_with [nl, nl] (complete_frames (snd (decode step d0 (concat chunks)))
         @ [fst (snd (read_loop step h (d0, [], u0) chunks))])
       = snd (decode step d0 (concat chunks))"
  by (simp add: handled_frames_def read_loop_whole fold_snoc_list frames_and_buffer)

section \<open>An error event does not end the run\<close>

text \<open>
  C3. An \<^verbatim>\<open>error\<close> event does not stop the consumer: the exception it throws is
  caught by the inner \<^verbatim>\<open>catch\<close> and only logged to the console, so that no failure is
  notified; and a \<^verbatim>\<open>complete\<close> event behind it is handled as in a successful run,
  with the paper displayed and the success notification shown.
\<close>

theorem error_then_complete:
  "handle_events display [error_event (JStr m)] = [ConsoleError (Error m)]
   \<and> handle_events display [error_event (JStr m), complete_event p] =
       [ConsoleError (Error m), SetWidth 100, SetMessage (JStr (js ''Done!'')), SetCurrentPaper p]
       @ (case display p of
            Inl e \<Rightarrow> [ConsoleError e]
          | Inr pg \<Rightarrow> [ShowPaper pg, Notify success_text (js ''success'')])"
  by (simp add: handle_events_def handle_parsed_def handle_data_def error_event_def
      complete_event_def field_def nullish_def js_def Let_def split: sum.splits)

section \<open>The topic is checked before any request\<close>

lemma requests_append: "requests (xs @ ys) = requests xs @ requests ys"
  by (induction xs rule: requests.induct) auto

lemma requests_concat: "(\<And>x. x \<in> set xs \<Longrightarrow> requests (f x) = []) \<Longrightarrow> requests (concat (map f xs)) = []"
  by (induction xs) (auto simp: requests_append)

lemma requests_section_width: "section_width s = Inr ws \<Longrightarrow> requests ws = []"
  by (auto simp: section_width_def split: sum.splits option.splits if_splits)

lemma requests_handle_data: "requests (fst (handle_data display data)) = []"
proof -
  have sw: "requests (case section_width (field data (js ''section'')) of Inl e \<Rightarrow> [] | Inr ws \<Rightarrow> ws) = []"
    by (simp add: section_width_def split: sum.splits option.splits)
  show ?thesis
  proof (cases "section_width (field data (js ''section''))")
    case (Inl e)
    then show ?thesis
      by (cases "to_string (field data (js ''count''))"; cases "display (field data (js ''paper''))";
          cases "to_string (field data (js ''message''))")
         (simp_all add: handle_data_def Let_def)
  next
    case (Inr ws)
    then have "requests ws = []" using sw by simp
    with Inr show ?thesis
      by (cases "to_string (field data (js ''count''))"; cases "display (field data (js ''paper''))";
          cases "to_string (field data (js ''message''))")
         (simp_all add: handle_data_def Let_def requests_append)
  qed
qed

lemma requests_handle_parsed: "requests (handle_parsed display r) = []"
proof (cases r)
  case None
  then show ?thesis by (simp add: handle_parsed_def)
next
  case (Some data)
  obtain es x where h: "handle_data display data = (es, x)" by (cases "handle_data display data")
  then have "requests es = []" using requests_handle_data [of display data] by simp
  then show ?thesis using Some h by (cases x) (simp_all add: handle_parsed_def requests_append)
qed

lemma stream_effects_eq:
  "stream_effects parse display step d0 chunks =
     concat (map (\<lambda>line. handle_parsed display (parse (slice_from 6 line)))
       (data_frames (snd (decode step d0 (concat chunks)))))"
proof -
  have "handle_frame parse display = (\<lambda>line es. es @ handle_parsed display (parse (slice_from 6 line)))"
    by (simp add: handle_frame_def fun_eq_iff)
  then show ?thesis
    by (simp add: stream_effects_def read_loop_whole fold_append_effects)
qed

lemma requests_stream: "requests (stream_effects parse display step d0 chunks) = []"
  by (simp add: stream_effects_eq requests_concat requests_handle_parsed)

lemma generatePaper_rejects:
  assumes "length (trim (paperTitle form)) < 10"
  shows "generatePaper parse display step d0 form resp =
      [if trim (paperTitle form) = [] then Notify (js ''Please enter a paper topic'') (js ''error'')
       else Notify (js ''Topic too short. Minimum 10 characters.'') (js ''warning'')]"
  using assms by (simp add: generatePaper_def generatePaper_payload_def Let_def)

lemma generatePaper_passes:
  assumes "10 \<le> length (trim (paperTitle form))"
  shows "generatePaper parse display step d0 form resp =
           [Notify (js ''Please add at least one author with complete details'') (js ''error'')]
         \<or> (\<exists>payload. generatePaper_payload form = Inr payload
               \<and> field payload (js ''topic'') = JStr (trim (paperTitle form))
               \<and> requests (generatePaper parse display step d0 form resp)
                   = [(js ''/api/generate-paper-stream'', payload)])"
proof (cases "collect_authors (authorEntries form) = []")
  case True
  with assms show ?thesis
    by (auto simp: generatePaper_def generatePaper_payload_def Let_def)
next
  case False
  with assms have ne: "trim (paperTitle form) \<noteq> []" by auto
  obtain payload where p: "generatePaper_payload form = Inr payload"
     and t: "field payload (js ''topic'') = JStr (trim (paperTitle form))"
    using assms False ne
    by (auto simp: generatePaper_payload_def Let_def field_def js_def)
  have "requests (generatePaper parse display step d0 form resp) = [(js ''/api/generate-paper-stream'', payload)]"
    by (simp add: generatePaper_def p requests_append requests_stream split: response.splits option.splits)
  with p t show ?thesis by blast
qed

lemma generateSurvey_rejects:
  assumes "length (trim raw) < 10"
  shows "generateSurvey display raw r1 r2 =
      [if trim raw = [] then Page (Notify (js ''Please enter a research topic'') (js ''error''))
       else Page (Notify (js ''Topic too short. Please provide at least 10 characters.'') (js ''warning''))]"
  using assms by (simp add: generateSurvey_def Let_def)

lemma survey_requests_append: "survey_requests (xs @ ys) = survey_requests xs @ survey_requests ys"
  by (induction xs rule: survey_requests.induct) auto

lemma survey_try_first:
  "\<exists>rest. fst (survey_try display topic r1 r2) =
     Page (Fetch (js ''/api/retrieve-papers'')
       (JObj [(js ''topic'', JStr topic), (js ''count'', JNum (js ''10''))])) # rest"
  by (simp add: survey_try_def Let_def split: http.splits option.splits sum.splits prod.splits)

lemma generateSurvey_passes:
  assumes "10 \<le> length (trim raw)"
  shows "\<exists>rest. survey_requests (generateSurvey display raw r1 r2) =
     (js ''/api/retrieve-papers'', JObj [(js ''topic'', JStr (trim raw)), (js ''count'', JNum (js ''10''))]) # rest"
proof -
  from assms have ne: "trim raw \<noteq> []" by auto
  obtain es x where st: "survey_try display (trim raw) r1 r2 = (es, x)" by (cases "survey_try display (trim raw) r1 r2")
  obtain rest where "es = Page (Fetch (js ''/api/retrieve-papers'')
       (JObj [(js ''topic'', JStr (trim raw)), (js ''count'', JNum (js ''10''))])) # rest"
    using survey_try_first [of display "trim raw" r1 r2] st by auto
  then show ?thesis
    using assms ne st by (cases x) (simp_all add: generateSurvey_def Let_def survey_requests_append)
qed



text \<open>
  C4. A topic that is empty or shorter than ten characters after trimming ends
  \<^verbatim>\<open>generatePaper\<close> and \<^verbatim>\<open>generateSurvey\<close> with one notification and no request.
  A trimmed topic of ten characters or more passes: \<^verbatim>\<open>generateSurvey\<close> sends its first
  request with that topic, and \<^verbatim>\<open>generatePaper\<close> goes on to the check of the authors
  and, when that passes too, sends its request with that topic.
\<close>

theorem topic_validation:
  "(length (trim (paperTitle form)) < 10 \<longrightarrow>
      generatePaper parse display step d0 form resp =
        [if trim (paperTitle form) = [] then Notify (js ''Please enter a paper topic'') (js ''error'')
         else Notify (js ''Topic too short. Minimum 10 characters.'') (js ''warning'')]
      \<and> requests (generatePaper parse display step d0 form resp) = [])
   \<and> (length (trim raw) < 10 \<longrightarrow>
      generateSurvey displaySurvey raw r1 r2 =
        [if trim raw = [] then Page (Notify (js ''Please enter a research topic'') (js ''error''))
         else Page (Notify (js ''Topic too short. Please provide at least 10 characters.'')
                           (js ''warning''))]
      \<and> survey_requests (generateSurvey displaySurvey raw r1 r2) = [])
   \<and> (10 \<le> length (trim (paperTitle form)) \<longrightarrow>
      generatePaper parse display step d0 form resp =
           [Notify (js ''Please add at least one author with complete details'') (js ''error'')]
      \<or> (\<exists>payload. generatePaper_payload form = Inr payload
            \<and> field payload (js ''topic'') = JStr (trim (paperTitle form))
            \<and> requests (generatePaper parse display step d0 form resp)
                = [(js ''/api/generate-paper-stream'', payload)]))
   \<and> (10 \<le> length (trim raw) \<longrightarrow>
      (\<exists>rest. survey_requests (generateSurvey displaySurvey raw r1 r2) =
         (js ''/api/retrieve-papers'',
          JObj [(js ''topic'', JStr (trim raw)), (js ''count'', JNum (js ''10''))]) # rest))"
proof -
  have a: "length (trim (paperTitle form)) < 10 \<Longrightarrow>
      requests (generatePaper parse display step d0 form resp) = []"
    using generatePaper_rejects [of form parse display step d0 resp] by simp
  have b: "length (trim raw) < 10 \<Longrightarrow>
      survey_requests (generateSurvey displaySurvey raw r1 r2) = []"
    using generateSurvey_rejects [of raw displaySurvey r1 r2] by simp
  show ?thesis
    using a b generatePaper_rejects [of form parse display step d0 resp]
      generateSurvey_rejects [of raw displaySurvey r1 r2]
      generatePaper_passes [of form parse display step d0 resp]
      generateSurvey_passes [of raw displaySurvey r1 r2]
    by blast
qed

text \<open>The checks of C4 at a topic of four characters, at a blank one and at a long one.\<close>

theorem topic_validation_witness:
  "length (trim (paperTitle short_form)) < 10
   \<and> generatePaper sample_parse (\<lambda>p. Inl TypeError) byte_decoder () short_form (Rejected [])
       = [Notify (js ''Topic too short. Minimum 10 characters.'') (js ''warning'')]
   \<and> generateSurvey (\<lambda>p. None) (js ''   '') (NetFail []) (NetFail [])
       = [Page (Notify (js ''Please enter a research topic'') (js ''error''))]
   \<and> 10 \<le> length (trim (paperTitle sample_form))
   \<and> (\<exists>payload. generatePaper_payload sample_form = Inr payload
         \<and> requests (generatePaper sample_parse (\<lambda>p. Inl TypeError) byte_decoder () sample_form (Rejected []))
             = [(js ''/api/generate-paper-stream'', payload)])
   \<and> (\<exists>rest. survey_requests (generateSurvey (\<lambda>p. None) (paperTitle sample_form) (NetFail []) (NetFail [])) =
         (js ''/api/retrieve-papers'',
          JObj [(js ''topic'', JStr (trim (paperTitle sample_form))), (js ''count'', JNum (js ''10''))]) # rest)"
proof -
  have s: "length (trim (paperTitle short_form)) < 10" "trim (paperTitle short_form) \<noteq> []"
    by (simp_all add: short_form_def trim_def is_space_js_def js_def)
  have e: "trim (js ''   '') = []"
    by (simp add: trim_def is_space_js_def js_def)
  have l: "10 \<le> length (trim (paperTitle sample_form))"
    by (simp add: sample_form_def trim_def is_space_js_def js_def)
  have p: "generatePaper_payload sample_form \<noteq> Inl (js ''Please add at least one author with complete details'', js ''error'')"
    by (simp add: generatePaper_payload_def collect_authors_def sample_form_def trim_def is_space_js_def js_def Let_def)
  have g: "generatePaper sample_parse (\<lambda>p. Inl TypeError) byte_decoder () sample_form (Rejected [])
      \<noteq> [Notify (js ''Please add at least one author with complete details'') (js ''error'')]"
    by (simp add: generatePaper_def generatePaper_payload_def collect_authors_def sample_form_def trim_def is_space_js_def js_def Let_def)
  show ?thesis
    using s e l g
      topic_validation [of short_form sample_parse "\<lambda>p. Inl TypeError" byte_decoder "()" "Rejected []"
         "js ''   ''" "\<lambda>p. None" "NetFail []" "NetFail []"]
      topic_validation [of sample_form sample_parse "\<lambda>p. Inl TypeError" byte_decoder "()" "Rejected []"
         "paperTitle sample_form" "\<lambda>p. None" "NetFail []" "NetFail []"]
    by auto
qed

section \<open>Known and unknown statuses\<close>






lemma render_sections_titles:
  "render_sections secs names = Inr bs \<Longrightarrow>
   map b_title bs = map section_title (filter (\<lambda>n. truthy (field secs n)) names)"
proof (induction names arbitrary: bs)
  case Nil
  then show ?case by simp
next
  case (Cons n names)
  then show ?case
    by (auto simp: get_field_def split: if_splits sum.splits json.splits)
qed


section \<open>The progress bar of a successful run\<close>

lemma widths_append: "widths (xs @ ys) = widths xs @ widths ys"
  by (induction xs rule: widths.induct) auto

lemma widths_plain:
  assumes "\<not> nullish ev"
  shows "field ev (js ''status'') = JStr (js ''start'') \<Longrightarrow> widths (handle_parsed display (Some ev)) = [10]"
    and "field ev (js ''status'') = JStr (js ''title'') \<Longrightarrow> widths (handle_parsed display (Some ev)) = [20]"
    and "field ev (js ''status'') = JStr (js ''rag_start'') \<Longrightarrow> widths (handle_parsed display (Some ev)) = [30]"
    and "field ev (js ''status'') = JStr (js ''rag_complete'') \<Longrightarrow> widths (handle_parsed display (Some ev)) = [40]"
    and "field ev (js ''status'') = JStr (js ''abstract'') \<Longrightarrow> widths (handle_parsed display (Some ev)) = [50]"
    and "field ev (js ''status'') = JStr (js ''references'') \<Longrightarrow> widths (handle_parsed display (Some ev)) = [95]"
    and "field ev (js ''status'') = JStr (js ''complete'') \<Longrightarrow> widths (handle_parsed display (Some ev)) = [100]"
  using assms
  by (simp_all add: handle_parsed_def handle_data_def js_def Let_def widths_append split: sum.splits)

lemma widths_section:
  assumes "\<not> nullish ev" "field ev (js ''status'') = JStr (js ''section_start'')"
    "field ev (js ''section'') = JStr sec" "map_of sectionMap sec = Some n"
  shows "widths (handle_parsed display (Some ev)) = [n]"
  using assms
  by (simp add: handle_parsed_def handle_data_def section_width_def js_def Let_def widths_append)


lemma widths_sections:
  assumes "\<not> nullish ev" "field ev (js ''status'') = JStr (js ''section_start'')"
  shows "field ev (js ''section'') = JStr (js ''introduction'') \<Longrightarrow> widths (handle_parsed display (Some ev)) = [55]"
    and "field ev (js ''section'') = JStr (js ''literature_review'') \<Longrightarrow> widths (handle_parsed display (Some ev)) = [62]"
    and "field ev (js ''section'') = JStr (js ''methodology'') \<Longrightarrow> widths (handle_parsed display (Some ev)) = [69]"
    and "field ev (js ''section'') = JStr (js ''results'') \<Longrightarrow> widths (handle_parsed display (Some ev)) = [76]"
    and "field ev (js ''section'') = JStr (js ''discussion'') \<Longrightarrow> widths (handle_parsed display (Some ev)) = [83]"
    and "field ev (js ''section'') = JStr (js ''conclusion'') \<Longrightarrow> widths (handle_parsed display (Some ev)) = [90]"
  using assms by (simp_all add: widths_section sectionMap_def js_def)

lemma widths_successful_run:
  assumes "list_all2 is_event evs successful_run"
  shows "widths (handle_events display evs) = [10, 20, 30, 40, 50, 55, 62, 69, 76, 83, 90, 95, 100]"
proof -
  from assms obtain e1 e2 e3 e4 e5 e6 e7 e8 e9 e10 e11 e12 e13 where
    evs: "evs = [e1, e2, e3, e4, e5, e6, e7, e8, e9, e10, e11, e12, e13]"
    and e: "is_event e1 (js ''start'', None)" "is_event e2 (js ''title'', None)"
      "is_event e3 (js ''rag_start'', None)" "is_event e4 (js ''rag_complete'', None)"
      "is_event e5 (js ''abstract'', None)"
      "is_event e6 (js ''section_start'', Some (js ''introduction''))"
      "is_event e7 (js ''section_start'', Some (js ''literature_review''))"
      "is_event e8 (js ''section_start'', Some (js ''methodology''))"
      "is_event e9 (js ''section_start'', Some (js ''results''))"
      "is_event e10 (js ''section_start'', Some (js ''discussion''))"
      "is_event e11 (js ''section_start'', Some (js ''conclusion''))"
      "is_event e12 (js ''references'', None)" "is_event e13 (js ''complete'', None)"
    unfolding successful_run_def by (auto simp: list_all2_Cons2)
  from e show ?thesis
    unfolding evs handle_events_def
    by (simp add: is_event_def widths_append widths_plain widths_sections)
qed

text \<open>
  C8. When the frames of the stream parse to the events of a successful run in their
  order, the widths assigned to the progress bar by \<^verbatim>\<open>generatePaper\<close>, from the 5 of
  its set-up to the 100 of \<^verbatim>\<open>complete\<close>, are the fourteen values below, strictly
  increasing.
\<close>

theorem progress_strictly_increasing:
  assumes "generatePaper_payload form = Inr payload"
    and "map (\<lambda>line. parse (slice_from 6 line)) (data_frames (snd (decode step d0 (concat chunks))))
          = map Some evs"
    and "list_all2 is_event evs successful_run"
  shows "widths (generatePaper parse display step d0 form (Body chunks None))
           = [5, 10, 20, 30, 40, 50, 55, 62, 69, 76, 83, 90, 95, 100]
       \<and> sorted_wrt (<) (widths (generatePaper parse display step d0 form (Body chunks None)))"
proof -
  have "stream_effects parse display step d0 chunks =
      concat (map (handle_parsed display)
        (map (\<lambda>line. parse (slice_from 6 line)) (data_frames (snd (decode step d0 (concat chunks))))))"
    by (simp add: stream_effects_eq comp_def)
  also have "\<dots> = handle_events display evs"
    by (simp add: assms(2) handle_events_def comp_def)
  finally have st: "widths (stream_effects parse display step d0 chunks)
      = [10, 20, 30, 40, 50, 55, 62, 69, 76, 83, 90, 95, 100]"
    using widths_successful_run [OF assms(3)] by simp
  have w: "widths (generatePaper parse display step d0 form (Body chunks None))
           = [5, 10, 20, 30, 40, 50, 55, 62, 69, 76, 83, 90, 95, 100]"
    by (simp add: generatePaper_def assms(1) widths_append st)
  show ?thesis unfolding w by simp
qed

lemma sample_frames:
  "map (\<lambda>line. sample_parse (slice_from 6 line))
     (data_frames (snd (decode byte_decoder () (concat sample_chunks)))) = map Some sample_events"
  by (simp add: sample_chunks_def byte_decoder_def data_frames_def complete_frames_def
      startsWith_def slice_from_def sample_parse_def sample_events_def successful_run_def js_def nl_def)


lemma sample_payload_eq: "generatePaper_payload sample_form = Inr sample_payload"
  by (simp add: generatePaper_payload_def collect_authors_def sample_form_def sample_payload_def
      trim_def is_space_js_def js_def Let_def)

lemma sample_events_run: "list_all2 is_event sample_events successful_run"
  by (simp add: sample_events_def successful_run_def is_event_def nullish_def field_def js_def)

text \<open>C8 at the sample stream, read in two chunks.\<close>

theorem progress_strictly_increasing_witness:
  "generatePaper_payload sample_form = Inr sample_payload
   \<and> list_all2 is_event sample_events successful_run
   \<and> widths (generatePaper sample_parse (\<lambda>p. Inl TypeError) byte_decoder () sample_form
        (Body sample_chunks None)) = [5, 10, 20, 30, 40, 50, 55, 62, 69, 76, 83, 90, 95, 100]"
  using progress_strictly_increasing [OF sample_payload_eq sample_frames sample_events_run,
      of "\<lambda>p. Inl TypeError"] sample_payload_eq sample_events_run
  by simp

section \<open>The sections of the displayed paper\<close>

lemma field_key_order:
  assumes "distinct (map fst kvs)" "distinct (map fst kvs')" "set kvs = set kvs'"
  shows "field (JObj kvs) = field (JObj kvs')"
proof -
  have "map_of kvs = map_of kvs'" using assms by (rule map_of_inject_set [THEN iffD2])
  then show ?thesis by (simp add: field_def fun_eq_iff)
qed

lemma render_sections_field:
  "field a = field b \<Longrightarrow> nullish a = nullish b \<Longrightarrow> render_sections a names = render_sections b names"
proof (induction names)
  case Nil
  then show ?case by simp
next
  case (Cons n names)
  then have "render_sections a names = render_sections b names" by simp
  then show ?case using Cons.prems by (simp add: get_field_def split: json.splits)
qed

lemma render_sections_key_order:
  assumes "distinct (map fst kvs)" "distinct (map fst kvs')" "set kvs = set kvs'"
  shows "render_sections (JObj kvs) names = render_sections (JObj kvs') names"
  using field_key_order [OF assms] by (intro render_sections_field) (simp_all add: nullish_def)

text \<open>
  C7, as amended. \<^verbatim>\<open>displayGeneratedPaper\<close> renders one block for every name of the
  fixed list whose value in \<^verbatim>\<open>data.sections\<close> is truthy, in the order of the list,
  whatever the order of the keys, and no other block; when these values are strings, as
  in a generated paper, the blocks are those of the non-empty strings, each with the title
  made of its name and its text with the line breaks replaced. A name whose value is the
  empty string gets no block.
\<close>

theorem sections_rendered:
  "(render_sections secs names = Inr bs \<longrightarrow>
      map b_title bs = map section_title (filter (\<lambda>n. truthy (field secs n)) names))
   \<and> (\<not> nullish secs \<and> (\<forall>n \<in> set names. truthy (field secs n) \<longrightarrow> field secs n = JStr (str_of (field secs n))) \<longrightarrow>
      render_sections secs names =
        Inr (map (\<lambda>n. \<lparr>b_title = section_title n, b_body = replace_newlines (str_of (field secs n))\<rparr>)
               (filter (\<lambda>n. truthy (field secs n)) names)))
   \<and> (displayGeneratedPaper formatDate render_figures render_references data = Inr pg \<longrightarrow>
      map b_title (p_sections pg)
        = map section_title (filter (\<lambda>n. truthy (field (field data (js ''sections'')) n)) sections))
   \<and> (distinct (map fst kvs) \<and> distinct (map fst kvs') \<and> set kvs = set kvs' \<longrightarrow>
      render_sections (JObj kvs) names = render_sections (JObj kvs') names)
   \<and> map section_title sections =
        [js ''Abstract'', js ''Introduction'', js ''Literature Review'', js ''Methodology'',
         js ''Results'', js ''Discussion'', js ''Conclusion'']"
proof -
  have total: "\<not> nullish secs \<Longrightarrow>
      (\<forall>n \<in> set names. truthy (field secs n) \<longrightarrow> field secs n = JStr (str_of (field secs n))) \<Longrightarrow>
      render_sections secs names =
        Inr (map (\<lambda>n. \<lparr>b_title = section_title n, b_body = replace_newlines (str_of (field secs n))\<rparr>)
               (filter (\<lambda>n. truthy (field secs n)) names))"
  proof (induction names)
    case Nil
    then show ?case by simp
  next
    case (Cons n names)
    then show ?case
      by (cases "field secs n") (auto simp: get_field_def truthy_def str_of_def)
  qed
  have disp: "displayGeneratedPaper formatDate render_figures render_references data = Inr pg \<Longrightarrow>
      map b_title (p_sections pg)
        = map section_title (filter (\<lambda>n. truthy (field (field data (js ''sections'')) n)) sections)"
    by (auto simp: displayGeneratedPaper_def render_sections_titles split: sum.splits)
  have titles: "map section_title sections =
        [js ''Abstract'', js ''Introduction'', js ''Literature Review'', js ''Methodology'',
         js ''Results'', js ''Discussion'', js ''Conclusion'']"
    by (simp add: sections_def section_title_def is_word_js_def toUpperCase_word_def js_def)
  show ?thesis
    using total disp titles render_sections_titles [of secs names bs]
      render_sections_key_order [of kvs kvs' names]
    by blast
qed

text \<open>C7 at an object with its keys out of order, an empty section and a section outside the list.\<close>

theorem sections_rendered_witness:
  "render_sections sample_sections sections =
     Inr [\<lparr>b_title = js ''Abstract'', b_body = js ''We study.''\<rparr>,
          \<lparr>b_title = js ''Conclusion'', b_body = js ''Done.''\<rparr>]
   \<and> map b_title [\<lparr>b_title = js ''Abstract'', b_body = js ''We study.''\<rparr>,
          \<lparr>b_title = js ''Conclusion'', b_body = js ''Done.''\<rparr>]
      = map section_title (filter (\<lambda>n. truthy (field sample_sections n)) sections)"
proof -
  have r: "render_sections sample_sections sections =
     Inr [\<lparr>b_title = js ''Abstract'', b_body = js ''We study.''\<rparr>,
          \<lparr>b_title = js ''Conclusion'', b_body = js ''Done.''\<rparr>]"
    by (simp add: sample_sections_def sections_def get_field_def nullish_def field_def truthy_def
        section_title_def is_word_js_def toUpperCase_word_def replace_newlines_def nl_def js_def)
  show ?thesis
    using r sections_rendered [of sample_sections sections
        "[\<lparr>b_title = js ''Abstract'', b_body = js ''We study.''\<rparr>,
          \<lparr>b_title = js ''Conclusion'', b_body = js ''Done.''\<rparr>]"]
    by simp
qed

text \<open>
  C7 as stated fails: a section that is present in \<^verbatim>\<open>data.sections\<close> with an empty
  text is not rendered.
\<close>

theorem empty_section_not_rendered:
  "has_own (JObj [(js ''abstract'', JStr [])]) (js ''abstract'')
   \<and> render_sections (JObj [(js ''abstract'', JStr [])]) sections = Inr []"
  by (simp add: has_own_def sections_def get_field_def nullish_def field_def truthy_def js_def)


section \<open>The search ladder and its deduplication\<close>

lemma dedup_seen_subset: "set (dedup_seen ident seen ps) \<subseteq> set ps"
  by (induction ps arbitrary: seen) auto

lemma dedup_seen_fresh: "x \<in> set (dedup_seen ident seen ps) \<Longrightarrow> ident x \<notin> set seen"
proof (induction ps arbitrary: seen)
  case Nil
  then show ?case by simp
next
  case (Cons p ps)
  show ?case
  proof (cases "ident p \<in> set seen")
    case True
    then show ?thesis using Cons by simp
  next
    case False
    with Cons.prems have "x = p \<or> x \<in> set (dedup_seen ident (ident p # seen) ps)" by simp
    then show ?thesis using False Cons.IH [of "ident p # seen"] by auto
  qed
qed

lemma dedup_seen_distinct: "distinct (map ident (dedup_seen ident seen ps))"
proof (induction ps arbitrary: seen)
  case Nil
  then show ?case by simp
next
  case (Cons p ps)
  have "\<And>x. x \<in> set (dedup_seen ident (ident p # seen) ps) \<Longrightarrow> ident x \<noteq> ident p"
    using dedup_seen_fresh [of _ ident "ident p # seen" ps] by fastforce
  then have "ident p \<notin> ident ` set (dedup_seen ident (ident p # seen) ps)"
    by force
  with Cons show ?case by simp
qed

lemma dedup_seen_complete:
  "x \<in> set ps \<Longrightarrow> ident x \<in> set seen \<or> ident x \<in> ident ` set (dedup_seen ident seen ps)"
proof (induction ps arbitrary: seen)
  case Nil
  then show ?case by simp
next
  case (Cons p ps)
  show ?case
  proof (cases "x = p")
    case True
    then show ?thesis by simp
  next
    case False
    with Cons.prems have x: "x \<in> set ps" by simp
    show ?thesis
    proof (cases "ident p \<in> set seen")
      case True
      then show ?thesis using Cons.IH [OF x, of seen] by simp
    next
      case False
      then show ?thesis using Cons.IH [OF x, of "ident p # seen"] by auto
    qed
  qed
qed

lemma deduplicate_props:
  "distinct (map ident (deduplicate ident ps))"
  "set (deduplicate ident ps) \<subseteq> set ps"
  "ident ` set (deduplicate ident ps) = ident ` set ps"
proof -
  show "distinct (map ident (deduplicate ident ps))"
    by (simp add: deduplicate_def dedup_seen_distinct)
  show sub: "set (deduplicate ident ps) \<subseteq> set ps"
    by (simp add: deduplicate_def dedup_seen_subset)
  show "ident ` set (deduplicate ident ps) = ident ` set ps"
  proof
    show "ident ` set (deduplicate ident ps) \<subseteq> ident ` set ps" using sub by blast
    show "ident ` set ps \<subseteq> ident ` set (deduplicate ident ps)"
      using dedup_seen_complete [of _ ps ident "[]"] by (auto simp: deduplicate_def)
  qed
qed

lemma slice_to_take: "\<exists>n. slice_to limit xs = take n xs"
  by (auto simp: slice_to_def)

lemma slice_to_length: "0 \<le> limit \<Longrightarrow> int (length (slice_to limit xs)) \<le> limit"
  by (auto simp: slice_to_def)

lemma ladder_step_cases:
  "ladder_step L limit q (papers, sent) =
     (if int (length papers) < limit then (papers @ search_api L q, sent @ [q]) else (papers, sent))"
  by (simp add: ladder_step_def)

lemma search_ladder_shape:
  "\<exists>k. 1 \<le> k \<and> k \<le> 4
     \<and> search_ladder L query limit =
         (concat (map (search_api L) (take k (ladder_queries L query))), take k (ladder_queries L query))
     \<and> (\<forall>j. 1 \<le> j \<and> j < k \<longrightarrow>
           int (length (concat (map (search_api L) (take j (ladder_queries L query))))) < limit)
     \<and> (k < 4 \<longrightarrow> limit \<le> int (length (concat (map (search_api L) (take k (ladder_queries L query))))))"
proof -
  let ?a = "search_api L"
  let ?q1 = query and ?q2 = "remove_stopwords L query" and ?q3 = "first_n_keywords L query 3"
    and ?q4 = "last_n_words L query 2"
  have lq: "ladder_queries L query = [?q1, ?q2, ?q3, ?q4]" by (simp add: ladder_queries_def)
  consider (one) "\<not> int (length (?a ?q1)) < limit"
    | (two) "int (length (?a ?q1)) < limit" "\<not> int (length (?a ?q1 @ ?a ?q2)) < limit"
    | (three) "int (length (?a ?q1)) < limit" "int (length (?a ?q1 @ ?a ?q2)) < limit"
        "\<not> int (length (?a ?q1 @ ?a ?q2 @ ?a ?q3)) < limit"
    | (four) "int (length (?a ?q1)) < limit" "int (length (?a ?q1 @ ?a ?q2)) < limit"
        "int (length (?a ?q1 @ ?a ?q2 @ ?a ?q3)) < limit"
    by blast
  then show ?thesis
  proof cases
    case one
    show ?thesis
    proof (intro exI [of _ 1] conjI allI impI)
      show "search_ladder L query limit =
         (concat (map ?a (take 1 (ladder_queries L query))), take 1 (ladder_queries L query))"
        using one by (simp add: lq search_ladder_def ladder_step_cases)
      show "limit \<le> int (length (concat (map ?a (take 1 (ladder_queries L query)))))"
        using one by (simp add: lq)
    qed simp_all
  next
    case two
    show ?thesis
    proof (intro exI [of _ 2] conjI allI impI)
      show "search_ladder L query limit =
         (concat (map ?a (take 2 (ladder_queries L query))), take 2 (ladder_queries L query))"
        using two by (simp add: lq search_ladder_def ladder_step_cases)
      show "limit \<le> int (length (concat (map ?a (take 2 (ladder_queries L query)))))"
        using two by (simp add: lq)
      fix j :: nat assume "1 \<le> j \<and> j < 2"
      then have "j = 1" by simp
      then show "int (length (concat (map ?a (take j (ladder_queries L query))))) < limit"
        using two by (simp add: lq)
    qed simp_all
  next
    case three
    show ?thesis
    proof (intro exI [of _ 3] conjI allI impI)
      show "search_ladder L query limit =
         (concat (map ?a (take 3 (ladder_queries L query))), take 3 (ladder_queries L query))"
        using three by (simp add: lq search_ladder_def ladder_step_cases)
      show "limit \<le> int (length (concat (map ?a (take 3 (ladder_queries L query)))))"
        using three by (simp add: lq)
      fix j :: nat assume "1 \<le> j \<and> j < 3"
      then have "j = 1 \<or> j = 2" by auto
      then show "int (length (concat (map ?a (take j (ladder_queries L query))))) < limit"
        using three by (auto simp: lq)
    qed simp_all
  next
    case four
    show ?thesis
    proof (intro exI [of _ 4] conjI allI impI)
      show "search_ladder L query limit =
         (concat (map ?a (take 4 (ladder_queries L query))), take 4 (ladder_queries L query))"
        using four by (simp add: lq search_ladder_def ladder_step_cases)
      fix j :: nat assume "1 \<le> j \<and> j < 4"
      then have "j = 1 \<or> j = 2 \<or> j = 3" by auto
      then show "int (length (concat (map ?a (take j (ladder_queries L query))))) < limit"
        using four by (auto simp: lq)
    qed simp_all
  qed
qed


text \<open>
  C1, as amended. For every topic and every limit, a broader query is sent only while the
  accumulator, as the provider's results were appended to it, duplicates included, is
  shorter than the limit; the accumulator is not deduplicated between the steps. After the
  last step it is deduplicated once, keeping one paper of every identifier, and for a limit
  that is not negative the result is cut to at most limit papers, no two of them with the
  same identifier.
\<close>

theorem search_papers_ladder:
  "(\<exists>k. 1 \<le> k \<and> k \<le> 4
       \<and> queries_sent L query limit = take k (ladder_queries L query)
       \<and> fst (search_ladder L query limit) = concat (map (search_api L) (queries_sent L query limit))
       \<and> (\<forall>j. 1 \<le> j \<and> j < k \<longrightarrow>
             int (length (concat (map (search_api L) (take j (ladder_queries L query))))) < limit)
       \<and> (k < 4 \<longrightarrow> limit \<le> int (length (fst (search_ladder L query limit)))))
   \<and> search_papers L ident query limit
       = slice_to limit (deduplicate ident (concat (map (search_api L) (queries_sent L query limit))))
   \<and> ident ` set (deduplicate ident (fst (search_ladder L query limit)))
       = ident ` set (fst (search_ladder L query limit))
   \<and> distinct (map ident (search_papers L ident query limit))
   \<and> set (search_papers L ident query limit) \<subseteq> set (fst (search_ladder L query limit))
   \<and> (0 \<le> limit \<longrightarrow> int (length (search_papers L ident query limit)) \<le> limit)"
proof -
  obtain k where k: "1 \<le> k" "k \<le> 4"
    and sl: "search_ladder L query limit =
         (concat (map (search_api L) (take k (ladder_queries L query))), take k (ladder_queries L query))"
    and gate: "\<forall>j. 1 \<le> j \<and> j < k \<longrightarrow>
           int (length (concat (map (search_api L) (take j (ladder_queries L query))))) < limit"
    and stop: "k < 4 \<longrightarrow> limit \<le> int (length (concat (map (search_api L) (take k (ladder_queries L query)))))"
    using search_ladder_shape [of L query limit] by blast
  have acc: "fst (search_ladder L query limit) = concat (map (search_api L) (queries_sent L query limit))"
    by (simp add: sl queries_sent_def)
  have first: "\<exists>k. 1 \<le> k \<and> k \<le> 4
       \<and> queries_sent L query limit = take k (ladder_queries L query)
       \<and> fst (search_ladder L query limit) = concat (map (search_api L) (queries_sent L query limit))
       \<and> (\<forall>j. 1 \<le> j \<and> j < k \<longrightarrow>
             int (length (concat (map (search_api L) (take j (ladder_queries L query))))) < limit)
       \<and> (k < 4 \<longrightarrow> limit \<le> int (length (fst (search_ladder L query limit))))"
    using k gate stop acc by (intro exI [of _ k]) (simp add: sl queries_sent_def)
  obtain n where n: "search_papers L ident query limit
      = take n (deduplicate ident (fst (search_ladder L query limit)))"
    using slice_to_take [of limit "deduplicate ident (fst (search_ladder L query limit))"]
    by (auto simp: search_papers_def)
  have d: "distinct (map ident (search_papers L ident query limit))"
    unfolding n take_map [symmetric] by (rule distinct_take) (rule deduplicate_props)
  have s: "set (search_papers L ident query limit) \<subseteq> set (fst (search_ladder L query limit))"
    unfolding n using set_take_subset deduplicate_props(2) by fast
  show ?thesis
    using first d s deduplicate_props(3) [of ident "fst (search_ladder L query limit)"]
      slice_to_length [of limit "deduplicate ident (fst (search_ladder L query limit))"]
    by (simp add: search_papers_def acc)
qed

lemma sample_run:
  "search_ladder sample_ladder sample_topic 3 =
     ([1, 1, 2], [sample_topic, py ''federated learning medical imaging''])"
  by (simp add: search_ladder_def ladder_step_def sample_ladder_def sample_topic_def py_def)

text \<open>C1 at the sample provider with a limit of 3.\<close>

theorem search_papers_ladder_witness:
  "queries_sent sample_ladder sample_topic 3 = take 2 (ladder_queries sample_ladder sample_topic)
   \<and> search_papers sample_ladder id sample_topic 3 = [1, 2]
   \<and> distinct (map id (search_papers sample_ladder id sample_topic 3))
   \<and> (0::int) \<le> 3 \<and> int (length (search_papers sample_ladder id sample_topic 3)) \<le> 3"
proof -
  have d: "distinct (map id (search_papers sample_ladder id sample_topic 3))"
    and l: "0 \<le> (3::int) \<longrightarrow> int (length (search_papers sample_ladder id sample_topic 3)) \<le> 3"
    using search_papers_ladder [of sample_ladder sample_topic 3 id] by blast+
  have lq: "take 2 (ladder_queries sample_ladder sample_topic)
      = [sample_topic, py ''federated learning medical imaging'']"
    by (simp add: ladder_queries_def sample_ladder_def)
  have q: "queries_sent sample_ladder sample_topic 3 = take 2 (ladder_queries sample_ladder sample_topic)"
    by (simp add: queries_sent_def sample_run lq)
  have r: "search_papers sample_ladder id sample_topic 3 = [1, 2]"
    by (simp add: search_papers_def sample_run deduplicate_def slice_to_def)
  show ?thesis using d l q r by simp
qed

text \<open>
  C1 as stated fails: with a limit of 3 the exact and the simplified query bring three
  records, two of them the same paper. The service stops there and returns two papers; a
  ladder that deduplicated before the third step would see two papers, send the minimal
  query and return three.
\<close>

theorem dedup_only_after_the_ladder:
  "queries_sent sample_ladder sample_topic 3
     = [sample_topic, py ''federated learning medical imaging'']
   \<and> search_papers sample_ladder id sample_topic 3 = [1, 2]
   \<and> snd (search_ladder_spec sample_ladder id sample_topic 3)
     = [sample_topic, py ''federated learning medical imaging'', py ''federated learning medical'']
   \<and> search_papers_spec sample_ladder id sample_topic 3 = [1, 2, 3]"
proof -
  have spec: "search_ladder_spec sample_ladder id sample_topic 3 =
     ([1, 2, 3], [sample_topic, py ''federated learning medical imaging'', py ''federated learning medical''])"
    by (simp add: search_ladder_spec_def ladder_step_spec_def deduplicate_def sample_ladder_def
        sample_topic_def py_def)
  show ?thesis
    by (simp add: search_papers_def queries_sent_def sample_run spec deduplicate_def slice_to_def
        search_papers_spec_def)
qed


section \<open>The slug of a cache key\<close>

lemma rstrip_Cons:
  "rstrip (c # cs) = (if py_isspace c \<and> (\<forall>x \<in> set cs. py_isspace x) then [] else c # rstrip cs)"
  by (auto simp: rstrip_def dropWhile_append3 dropWhile_append)

lemma rstrip_all_space:
  "py_isspace c \<Longrightarrow> \<forall>x \<in> set cs. py_isspace x \<Longrightarrow> rstrip (c # cs) = []"
  by (simp add: rstrip_Cons)

lemma rstrip_keep:
  "\<not> py_isspace c \<or> (\<exists>x \<in> set cs. \<not> py_isspace x) \<Longrightarrow> rstrip (c # cs) = c # rstrip cs"
  by (auto simp: rstrip_Cons)

lemma strip_rstrip: "strip s = rstrip (dropWhile py_isspace s)"
  by (simp add: strip_def rstrip_def)

lemma dropWhile_rstrip: "dropWhile py_isspace (rstrip s) = rstrip (dropWhile py_isspace s)"
proof (induction s)
  case Nil
  then show ?case by (simp add: rstrip_def)
next
  case (Cons c cs)
  show ?case
  proof (cases "py_isspace c")
    case True
    show ?thesis
    proof (cases "\<forall>x \<in> set cs. py_isspace x")
      case all: True
      have l: "rstrip (c # cs) = []" using True all by (rule rstrip_all_space)
      have r: "dropWhile py_isspace (c # cs) = []" using True all by simp
      show ?thesis unfolding l r by (simp add: rstrip_def)
    next
      case False
      then have "rstrip (c # cs) = c # rstrip cs" by (simp add: rstrip_keep)
      with True Cons show ?thesis by simp
    qed
  next
    case False
    then show ?thesis by (simp add: rstrip_keep)
  qed
qed

lemma collapse_True: "collapse_spaces True s = collapse_spaces False (dropWhile py_isspace s)"
  by (induction s) auto

lemma tokens_nonempty: "cur \<noteq> [] \<Longrightarrow> tokens cur s \<noteq> []"
  by (induction s arbitrary: cur) auto

lemma tokens_all_space: "(tokens [] s = []) = (\<forall>x \<in> set s. py_isspace x)"
  by (induction s) (auto simp: tokens_nonempty)

lemma collapse_word: "\<not> py_isspace c \<Longrightarrow> collapse_spaces b (c # s) = c # collapse_spaces False s"
  by simp

lemma collapse_append:
  "\<forall>x \<in> set cur. \<not> py_isspace x \<Longrightarrow> cur \<noteq> [] \<Longrightarrow>
   collapse_spaces b (cur @ s) = cur @ collapse_spaces False s"
proof (induction cur arbitrary: b)
  case Nil
  then show ?case by simp
next
  case (Cons c cur)
  then show ?case by (cases cur) auto
qed

lemma tokens_join:
  "\<forall>x \<in> set cur. \<not> py_isspace x \<Longrightarrow>
   join_with [95] (tokens cur s) =
     (if cur = [] then collapse_spaces False (strip s) else cur @ collapse_spaces False (rstrip s))"
proof (induction s arbitrary: cur)
  case Nil
  then show ?case by (simp add: strip_def rstrip_def)
next
  case (Cons c cs)
  show ?case
  proof (cases "py_isspace c")
    case False
    then have keep: "rstrip (c # cs) = c # rstrip cs" by (simp add: rstrip_keep)
    have ih: "join_with [95] (tokens (cur @ [c]) cs) = (cur @ [c]) @ collapse_spaces False (rstrip cs)"
      using Cons.IH [of "cur @ [c]"] Cons.prems False by simp
    show ?thesis
    proof (cases "cur = []")
      case True
      then show ?thesis using False ih by (simp add: strip_rstrip keep)
    next
      case cur: False
      then show ?thesis using False ih by (simp add: keep)
    qed
  next
    case True
    have ih: "join_with [95] (tokens [] cs) = collapse_spaces False (strip cs)"
      using Cons.IH [of "[]"] by simp
    show ?thesis
    proof (cases "cur = []")
      case cur: True
      then show ?thesis using True ih by (simp add: strip_rstrip)
    next
      case cur: False
      show ?thesis
      proof (cases "\<forall>x \<in> set cs. py_isspace x")
        case all: True
        then have t: "tokens [] cs = []" by (simp add: tokens_all_space)
        have r: "rstrip (c # cs) = []" using True all by (rule rstrip_all_space)
        show ?thesis using True cur by (simp add: t r)
      next
        case False
        then have ne: "tokens [] cs \<noteq> []" by (simp add: tokens_all_space)
        from False have keep: "rstrip (c # cs) = c # rstrip cs" by (simp add: rstrip_keep)
        have "collapse_spaces True (rstrip cs) = collapse_spaces False (strip cs)"
          by (simp add: collapse_True dropWhile_rstrip strip_rstrip)
        then show ?thesis
          using True cur ne ih by (simp add: keep join_with_Cons)
      qed
    qed
  qed
qed

lemma collapse_chars:
  "x \<in> set (collapse_spaces b s) \<Longrightarrow> x = 95 \<or> (x \<in> set s \<and> \<not> py_isspace x)"
  by (induction s arbitrary: b) (auto split: if_splits)

lemma set_strip: "set (strip s) \<subseteq> set s"
proof -
  have "set (strip s) = set (dropWhile py_isspace (rev (dropWhile py_isspace s)))"
    by (simp add: strip_def)
  also have "\<dots> \<subseteq> set (rev (dropWhile py_isspace s))" by (rule set_dropWhileD [THEN subsetI]) 
  also have "\<dots> \<subseteq> set s" using set_dropWhileD by fastforce
  finally show ?thesis .
qed

lemma encode_total:
  "\<forall>c \<in> set q. c < 55296 \<or> (57343 < c \<and> c < 1114112) \<Longrightarrow> encode q \<noteq> None"
  by (induction q) (auto simp: utf8_char_def split: option.splits)


text \<open>
  C5, as amended. The cache key is the slug, an underscore and the first eight characters
  of the MD5 digest of the UTF-8 bytes of the original query (a query with a surrogate
  code point cannot be encoded and raises). The slug is made from the lowercased query by
  removing every character that is neither a word character, white space nor a hyphen,
  joining the remaining white-space separated tokens with single underscores (so leading
  and trailing white space leaves no underscore) and keeping the first 60 characters; it
  contains word characters, hyphens and underscores only.
\<close>

theorem cache_key_derivation:
  "get_cache_key U md5_hexdigest query =
     (case encode query of
        None \<Rightarrow> Inl UnicodeEncodeError
      | Some bytes \<Rightarrow> Inr (cache_slug U query @ [95] @ take 8 (md5_hexdigest bytes)))
   \<and> cache_slug U query =
       take 60 (join_with [95] (tokens []
         (filter (\<lambda>c. is_word U c \<or> py_isspace c \<or> c = 45) (lower U query))))
   \<and> length (cache_slug U query) \<le> 60
   \<and> (\<forall>c \<in> set (cache_slug U query). (is_word U c \<or> c = 45 \<or> c = 95) \<and> \<not> py_isspace c)
   \<and> ((\<forall>c \<in> set query. c < 55296 \<or> (57343 < c \<and> c < 1114112)) \<longrightarrow>
        (\<exists>bytes. encode query = Some bytes
           \<and> get_cache_key U md5_hexdigest query
               = Inr (cache_slug U query @ [95] @ take 8 (md5_hexdigest bytes))
           \<and> (8 \<le> length (md5_hexdigest bytes) \<longrightarrow> length (take 8 (md5_hexdigest bytes)) = 8)))"
proof -
  let ?clean = "filter (\<lambda>c. is_word U c \<or> py_isspace c \<or> c = 45) (lower U query)"
  have slug: "cache_slug U query = take 60 (join_with [95] (tokens [] ?clean))"
    using tokens_join [of "[]" ?clean] by (simp add: cache_slug_def)
  have chars: "\<forall>c \<in> set (cache_slug U query). (is_word U c \<or> c = 45 \<or> c = 95) \<and> \<not> py_isspace c"
  proof
    fix c assume "c \<in> set (cache_slug U query)"
    then have "c \<in> set (collapse_spaces False (strip ?clean))"
      by (auto simp: cache_slug_def dest: in_set_takeD)
    then have "c = 95 \<or> (c \<in> set (strip ?clean) \<and> \<not> py_isspace c)"
      by (rule collapse_chars)
    then have "c = 95 \<or> (c \<in> set ?clean \<and> \<not> py_isspace c)"
      using set_strip [of ?clean] by auto
    then show "(is_word U c \<or> c = 45 \<or> c = 95) \<and> \<not> py_isspace c"
      by (auto simp: py_isspace_def)
  qed
  have enc: "(\<forall>c \<in> set query. c < 55296 \<or> (57343 < c \<and> c < 1114112)) \<longrightarrow>
        (\<exists>bytes. encode query = Some bytes
           \<and> get_cache_key U md5_hexdigest query
               = Inr (cache_slug U query @ [95] @ take 8 (md5_hexdigest bytes))
           \<and> (8 \<le> length (md5_hexdigest bytes) \<longrightarrow> length (take 8 (md5_hexdigest bytes)) = 8))"
    using encode_total [of query] by (auto simp: get_cache_key_def)
  have key: "get_cache_key U md5_hexdigest query =
     (case encode query of
        None \<Rightarrow> Inl UnicodeEncodeError
      | Some bytes \<Rightarrow> Inr (cache_slug U query @ [95] @ take 8 (md5_hexdigest bytes)))"
    by (simp add: get_cache_key_def)
  have len: "length (cache_slug U query) \<le> 60"
    by (simp add: cache_slug_def)
  show ?thesis using key slug len chars enc by blast
qed

lemma sample_slug: "cache_slug ascii_ucd sample_query = py ''deep-learning_for_x-ray''"
  by (simp add: cache_slug_def ascii_ucd_def sample_query_def strip_def py_isspace_def py_def)

lemma sample_key:
  "get_cache_key ascii_ucd sample_md5 sample_query = Inr (py ''deep-learning_for_x-ray_443fd2d0'')"
  by (simp add: get_cache_key_def sample_slug)
     (simp add: sample_query_def sample_md5_def utf8_char_def py_def)

text \<open>C5 at the sample query.\<close>

theorem cache_key_derivation_witness:
  "get_cache_key ascii_ucd sample_md5 sample_query = Inr (py ''deep-learning_for_x-ray_443fd2d0'')
   \<and> cache_slug ascii_ucd sample_query = py ''deep-learning_for_x-ray''
   \<and> (\<exists>bytes. encode sample_query = Some bytes \<and> length (take 8 (sample_md5 bytes)) = 8)"
proof -
  have ok: "\<forall>c \<in> set sample_query. c < 55296 \<or> (57343 < c \<and> c < 1114112)"
    by (simp add: sample_query_def py_def)
  have len: "\<And>bytes. 8 \<le> length (sample_md5 bytes)"
    by (simp add: sample_md5_def py_def)
  have "(\<forall>c \<in> set sample_query. c < 55296 \<or> (57343 < c \<and> c < 1114112)) \<longrightarrow>
        (\<exists>bytes. encode sample_query = Some bytes
           \<and> get_cache_key ascii_ucd sample_md5 sample_query
               = Inr (cache_slug ascii_ucd sample_query @ [95] @ take 8 (sample_md5 bytes))
           \<and> (8 \<le> length (sample_md5 bytes) \<longrightarrow> length (take 8 (sample_md5 bytes)) = 8))"
    using cache_key_derivation [of ascii_ucd sample_md5 sample_query] by (elim conjE)
  with ok obtain bytes where b: "encode sample_query = Some bytes"
      "8 \<le> length (sample_md5 bytes) \<longrightarrow> length (take 8 (sample_md5 bytes)) = 8"
    by blast
  from b len have "encode sample_query = Some bytes \<and> length (take 8 (sample_md5 bytes)) = 8"
    by blast
  then have "\<exists>bytes. encode sample_query = Some bytes \<and> length (take 8 (sample_md5 bytes)) = 8"
    by (rule exI)
  with sample_key sample_slug show ?thesis by (intro conjI)
qed

text \<open>
  C5 as stated fails: stripping the non-word characters would remove the hyphens and would
  leave the white space at the ends to become underscores; the code keeps the hyphens and
  strips the ends.
\<close>

theorem slug_keeps_hyphens:
  "cache_slug ascii_ucd sample_query = py ''deep-learning_for_x-ray''
   \<and> slug_spec ascii_ucd sample_query = py ''_deeplearning_for_xray_''"
  by (simp add: sample_slug)
     (simp add: slug_spec_def ascii_ucd_def sample_query_def py_isspace_def py_def)


section \<open>The output of the formatter\<close>



















end
